theory Spec2Isabelle
  imports Complex_Main "HOL-Library.Log_Nat"
begin

section \<open>Laptop Galleria: checkout, cart pricing, admin product forms, image normalizer\<close>

text \<open>
  A shallow embedding of \<^verbatim>\<open>app.py\<close>. Each route and helper the properties below talk
  about is a HOL function with the name it has in the source. The request handlers read
  and write the database tables, the session and the upload folder; here they take the
  application state as an argument and return it, updated, next to the response.
  An uncaught Python exception is the response \<open>Raised e\<close>.
\<close>

subsection \<open>Python exceptions\<close>

datatype exn = ValueError | OverflowError | ZeroDivisionError | AttributeError
  | UnidentifiedImageError | DecompressionBombError | MemoryError

definition exn_bind :: "exn + 'a \<Rightarrow> ('a \<Rightarrow> exn + 'b) \<Rightarrow> exn + 'b" where
  "exn_bind m f = (case m of Inl e \<Rightarrow> Inl e | Inr v \<Rightarrow> f v)"

subsection \<open>Python floats\<close>

text \<open>
  A Python float is an IEEE 754 binary64 number. A finite one is the rational number it
  denotes (the sign of zero is dropped: nothing below depends on it).
  \<open>round_double\<close> is round-to-nearest, ties-to-even, onto numbers \<open>m * 2^e\<close> with
  \<open>\<bar>m\<bar> \<le> 2^53\<close> and \<open>e \<ge> -1074\<close>; \<open>float_round\<close> adds the overflow to an infinity, from
  \<open>2^1024\<close> on.
\<close>

datatype py_float = Finite rat | PosInf | NegInf | NaN

definition round_half_even :: "rat \<Rightarrow> int" where
  "round_half_even x =
     (let f = \<lfloor>x\<rfloor>; d = x - of_int f
      in if d < 1 / 2 then f else if 1 / 2 < d then f + 1 else if even f then f else f + 1)"

text \<open>For \<open>x > 0\<close>, \<open>ilog2 x\<close> is the integer \<open>l\<close> with \<open>2^l \<le> x < 2^(l+1)\<close>.\<close>

definition ilog2 :: "rat \<Rightarrow> int" where
  "ilog2 x = (case quotient_of x of (p, q) \<Rightarrow>
     (let d = bitlen p - bitlen q in if 2 powi d \<le> x then d else d - 1))"

definition round_double :: "rat \<Rightarrow> rat" where
  "round_double x =
     (if x = 0 then 0
      else let e = max (ilog2 \<bar>x\<bar> - 52) (- 1074)
           in of_int (round_half_even (x / 2 powi e)) * 2 powi e)"

definition float_round :: "rat \<Rightarrow> py_float" where
  "float_round x =
     (let r = round_double x
      in if 1024 \<le> ilog2 \<bar>r\<bar> then (if 0 < r then PosInf else NegInf) else Finite r)"

text \<open>\<^verbatim>\<open>float(n)\<close> for an int, also the implicit conversion in \<^verbatim>\<open>n * x\<close> and \<^verbatim>\<open>x + n\<close>.\<close>

definition float_of_int :: "int \<Rightarrow> exn + py_float" where
  "float_of_int n =
     (case float_round (of_int n) of Finite r \<Rightarrow> Inr (Finite r) | _ \<Rightarrow> Inl OverflowError)"

text \<open>\<^verbatim>\<open>a / b\<close> on two ints: the correctly rounded quotient.\<close>

definition int_truediv :: "int \<Rightarrow> int \<Rightarrow> exn + py_float" where
  "int_truediv a b =
     (if b = 0 then Inl ZeroDivisionError
      else case float_round (of_int a / of_int b) of
             Finite r \<Rightarrow> Inr (Finite r)
           | _ \<Rightarrow> Inl OverflowError)"

fun float_truediv :: "py_float \<Rightarrow> py_float \<Rightarrow> exn + py_float" where
  "float_truediv (Finite a) (Finite b) =
     (if b = 0 then Inl ZeroDivisionError else Inr (float_round (a / b)))"
| "float_truediv PosInf (Finite b) =
     (if b = 0 then Inl ZeroDivisionError else Inr (if 0 < b then PosInf else NegInf))"
| "float_truediv NegInf (Finite b) =
     (if b = 0 then Inl ZeroDivisionError else Inr (if 0 < b then NegInf else PosInf))"
| "float_truediv NaN (Finite b) = (if b = 0 then Inl ZeroDivisionError else Inr NaN)"
| "float_truediv (Finite a) PosInf = Inr (Finite 0)"
| "float_truediv (Finite a) NegInf = Inr (Finite 0)"
| "float_truediv x y = Inr NaN"

fun float_mul :: "py_float \<Rightarrow> py_float \<Rightarrow> py_float" where
  "float_mul (Finite a) (Finite b) = float_round (a * b)"
| "float_mul NaN y = NaN"
| "float_mul x NaN = NaN"
| "float_mul (Finite a) PosInf = (if a = 0 then NaN else if 0 < a then PosInf else NegInf)"
| "float_mul (Finite a) NegInf = (if a = 0 then NaN else if 0 < a then NegInf else PosInf)"
| "float_mul PosInf (Finite b) = (if b = 0 then NaN else if 0 < b then PosInf else NegInf)"
| "float_mul NegInf (Finite b) = (if b = 0 then NaN else if 0 < b then NegInf else PosInf)"
| "float_mul PosInf PosInf = PosInf"
| "float_mul NegInf NegInf = PosInf"
| "float_mul PosInf NegInf = NegInf"
| "float_mul NegInf PosInf = NegInf"

fun float_add :: "py_float \<Rightarrow> py_float \<Rightarrow> py_float" where
  "float_add (Finite a) (Finite b) = float_round (a + b)"
| "float_add NaN y = NaN"
| "float_add x NaN = NaN"
| "float_add PosInf NegInf = NaN"
| "float_add NegInf PosInf = NaN"
| "float_add PosInf y = PosInf"
| "float_add NegInf y = NegInf"
| "float_add x PosInf = PosInf"
| "float_add x NegInf = NegInf"

text \<open>\<^verbatim>\<open>x > y\<close>: every comparison with a NaN is false.\<close>

fun float_gt :: "py_float \<Rightarrow> py_float \<Rightarrow> bool" where
  "float_gt (Finite a) (Finite b) = (b < a)"
| "float_gt NaN y = False"
| "float_gt x NaN = False"
| "float_gt PosInf PosInf = False"
| "float_gt PosInf y = True"
| "float_gt x PosInf = False"
| "float_gt NegInf y = False"
| "float_gt x NegInf = True"

text \<open>\<^verbatim>\<open>int(x)\<close> truncates toward zero; \<^verbatim>\<open>round(x)\<close> rounds half to even.\<close>

fun int_of_float :: "py_float \<Rightarrow> exn + int" where
  "int_of_float (Finite a) = Inr (if 0 \<le> a then \<lfloor>a\<rfloor> else \<lceil>a\<rceil>)"
| "int_of_float NaN = Inl ValueError"
| "int_of_float x = Inl OverflowError"

fun py_round :: "py_float \<Rightarrow> exn + int" where
  "py_round (Finite a) = Inr (round_half_even a)"
| "py_round NaN = Inl ValueError"
| "py_round x = Inl OverflowError"

subsection \<open>Python strings\<close>

text \<open>
  A \<open>string\<close> is the UTF-8 encoding of the Python string. The peso sign U+20B1 of the
  source's f-strings is three bytes.
\<close>

definition peso :: string where
  "peso = [CHR 0xE2, CHR 0x82, CHR 0xB1]"

fun str_nat :: "nat \<Rightarrow> string" where
  "str_nat n =
     (if n < 10 then [''0123456789'' ! n]
      else str_nat (n div 10) @ [''0123456789'' ! (n mod 10)])"

declare str_nat.simps [simp del]

text \<open>\<^verbatim>\<open>str(i)\<close>, also what \<^verbatim>\<open>{i}\<close> renders in an f-string.\<close>

definition str_int :: "int \<Rightarrow> string" where
  "str_int i = (if i < 0 then ''-'' @ str_nat (nat (- i)) else str_nat (nat i))"

text \<open>\<^verbatim>\<open>{x}\<close> of a form value that may be \<^verbatim>\<open>None\<close>.\<close>

definition str_opt :: "string option \<Rightarrow> string" where
  "str_opt v = (case v of None \<Rightarrow> ''None'' | Some t \<Rightarrow> t)"

text \<open>\<^verbatim>\<open>{x:.2f}\<close>: the float's exact value, rounded half-even to two decimals.\<close>

fun format_2f :: "py_float \<Rightarrow> string" where
  "format_2f (Finite a) =
     (let n = nat (round_half_even (\<bar>a\<bar> * 100))
      in (if a < 0 then ''-'' else '''') @ str_nat (n div 100) @ ''.''
         @ [''0123456789'' ! (n mod 100 div 10), ''0123456789'' ! (n mod 10)])"
| "format_2f PosInf = ''inf''"
| "format_2f NegInf = ''-inf''"
| "format_2f NaN = ''nan''"

text \<open>\<^verbatim>\<open>sep.join(xs)\<close>\<close>

fun join :: "string \<Rightarrow> string list \<Rightarrow> string" where
  "join sep [] = []"
| "join sep [x] = x"
| "join sep (x # y # ys) = x @ sep @ join sep (y # ys)"

text \<open>\<^verbatim>\<open>s.lower()\<close> on the ASCII letters; all the extension check compares with.\<close>

definition lower_char :: "char \<Rightarrow> char" where
  "lower_char c =
     (case map_of (zip ''ABCDEFGHIJKLMNOPQRSTUVWXYZ'' ''abcdefghijklmnopqrstuvwxyz'') c of
        None \<Rightarrow> c
      | Some l \<Rightarrow> l)"

definition lower :: "string \<Rightarrow> string" where
  "lower s = map lower_char s"

text \<open>\<^verbatim>\<open>s.rsplit(".", 1)[-1]\<close>: what follows the last dot, all of \<open>s\<close> when it has none.\<close>

definition rsplit_last :: "string \<Rightarrow> string" where
  "rsplit_last s = rev (takeWhile (\<lambda>c. c \<noteq> CHR ''.'') (rev s))"

subsection \<open>Models: the tables, the session, the upload folder\<close>

record product =
  p_id :: int
  name :: string
  slug :: string
  description :: "string option"
  price_cents :: int
  image_filename :: "string option"
  stock :: int

record order =
  o_id :: int
  created_at :: nat
  customer_name :: "string option"
  customer_address :: "string option"
  items :: string
  total_cents :: int

text \<open>Of an image only its size is kept.\<close>

record image =
  width :: int
  height :: int

text \<open>
  An uploaded file: its client-side name, and what \<^verbatim>\<open>Image.open\<close> decodes from its
  stream (\<open>None\<close> when the bytes are not an image).
\<close>

record file_storage =
  filename :: string
  stream :: "image option"

text \<open>
  The cart is the dict \<^verbatim>\<open>session["cart"]\<close> in iteration order (its keys are distinct).
  The source keys it by \<^verbatim>\<open>str(product_id)\<close> and reads every key back through
  \<^verbatim>\<open>int(pid)\<close>; the model keeps the integer.
\<close>

record app_state =
  products :: "product list"
  orders :: "order list"
  session_cart :: "(int \<times> int) list"
  session_admin :: bool
  flashes :: "string list"
  uploads :: "string \<rightharpoonup> image"

text \<open>The attribute bag \<^verbatim>\<open>X\<close> built per cart line: \<^verbatim>\<open>product\<close>, \<^verbatim>\<open>qty\<close>, \<^verbatim>\<open>total\<close>.\<close>

datatype cart_item = X (item_product: product) (item_qty: int) (item_total: int)

datatype response =
    Redirect_view_cart
  | Redirect_admin
  | Redirect_messenger string
  | Cart_page "cart_item list" int
  | Not_found
  | Raised exn

text \<open>\<^verbatim>\<open>Product.query.get(i)\<close>\<close>

definition get_product :: "product list \<Rightarrow> int \<Rightarrow> product option" where
  "get_product ps i = find (\<lambda>p. p_id p = i) ps"

text \<open>The row of \<open>p\<close>, written back at commit.\<close>

definition put_product :: "product list \<Rightarrow> product \<Rightarrow> product list" where
  "put_product ps p = map (\<lambda>q. if p_id q = p_id p then p else q) ps"

text \<open>The integer primary key of a new row.\<close>

definition next_id :: "int list \<Rightarrow> int" where
  "next_id ids = fold max ids 0 + 1"

definition flash :: "string \<Rightarrow> app_state \<Rightarrow> app_state" where
  "flash msg s = s\<lparr>flashes := flashes s @ [msg]\<rparr>"

definition cart_get :: "app_state \<Rightarrow> (int \<times> int) list" where
  "cart_get s = session_cart s"

definition cart_set :: "(int \<times> int) list \<Rightarrow> app_state \<Rightarrow> app_state" where
  "cart_set c s = s\<lparr>session_cart := c\<rparr>"

text \<open>
  \<^verbatim>\<open>init_db\<close> on an empty database: the five sample products, numbered by the
  database in the order they are saved; and the state a first visitor finds.
\<close>

definition samples :: "product list" where
  "samples =
     [\<lparr>p_id = 1, name = ''Lenovo IdeaPad'', slug = ''lenovo-ideapad'',
       description = Some ''Reliable everyday laptop.'', price_cents = 2500000,
       image_filename = None, stock = 5\<rparr>,
      \<lparr>p_id = 2, name = ''Dell Latitude'', slug = ''dell-latitude'',
       description = Some ''Business-grade laptop.'', price_cents = 1800000,
       image_filename = None, stock = 3\<rparr>,
      \<lparr>p_id = 3, name = ''Gaming PC'', slug = ''gaming-pc'',
       description = Some ''High-performance desktop for gaming.'', price_cents = 4500000,
       image_filename = None, stock = 2\<rparr>,
      \<lparr>p_id = 4, name = ''Mechanical Keyboard'', slug = ''mechanical-keyboard'',
       description = Some ''RGB mechanical keyboard.'', price_cents = 250000,
       image_filename = None, stock = 10\<rparr>,
      \<lparr>p_id = 5, name = ''Gaming Mouse'', slug = ''gaming-mouse'',
       description = Some ''High DPI gaming mouse.'', price_cents = 120000,
       image_filename = None, stock = 15\<rparr>]"

definition init_db :: app_state where
  "init_db = \<lparr>products = samples, orders = [], session_cart = [], session_admin = False,
              flashes = [], uploads = Map.empty\<rparr>"

subsection \<open>Helpers: the image normalizer\<close>

definition allowed_file :: "string \<Rightarrow> bool" where
  "allowed_file fname =
     (let ext = lower (rsplit_last fname)
      in ext \<in> set [''jpg'', ''jpeg'', ''png'', ''webp''])"

text \<open>
  What Pillow refuses. \<^verbatim>\<open>Image.MAX_IMAGE_PIXELS\<close> is
  \<^verbatim>\<open>int(1024 * 1024 * 1024 // 4 // 3)\<close>; \<^verbatim>\<open>_decompression_bomb_check\<close> raises on a
  size of more than twice as many pixels (both sides counted as at least 1). An image is
  allocated when it is loaded, resized or cropped, and the allocation raises
  \<^verbatim>\<open>MemoryError\<close> when the machine cannot hold it: \<open>mem\<close> is the number of pixels of
  the largest image that it can hold. The sides handed to \<^verbatim>\<open>resize\<close> are read as C
  ints.
\<close>

definition max_image_pixels :: int where
  "max_image_pixels = 89478485"

definition decompression_bomb_check :: "int \<times> int \<Rightarrow> exn + unit" where
  "decompression_bomb_check sz =
     (case sz of (w, h) \<Rightarrow>
        if 2 * max_image_pixels < max 1 w * max 1 h then Inl DecompressionBombError
        else Inr ())"

definition new_image :: "int \<Rightarrow> int \<times> int \<Rightarrow> exn + image" where
  "new_image mem sz =
     (case sz of (w, h) \<Rightarrow>
        if mem < w * h then Inl MemoryError else Inr \<lparr>width = w, height = h\<rparr>)"

definition c_int :: "int \<Rightarrow> bool" where
  "c_int n \<longleftrightarrow> - (2 ^ 31) \<le> n \<and> n < 2 ^ 31"

text \<open>
  The three Pillow calls, on sizes. \<^verbatim>\<open>Image.open(stream).convert("RGB")\<close> raises on
  bytes it cannot identify, checks the size for a decompression bomb and loads the image;
  \<^verbatim>\<open>resize\<close> refuses a size with a side below 1 and allocates the new image;
  \<^verbatim>\<open>crop\<close> refuses a box whose right or lower coordinate is less than the left or
  upper one, takes \<^verbatim>\<open>int(round(x))\<close> of each coordinate (Python 3 rounds a half to the
  even neighbour), checks the distances of the rounded corners for a decompression bomb
  and returns the region between them.
\<close>

definition image_open :: "int \<Rightarrow> image option \<Rightarrow> exn + image" where
  "image_open mem st =
     (case st of
        None \<Rightarrow> Inl UnidentifiedImageError
      | Some im \<Rightarrow>
          exn_bind (decompression_bomb_check (width im, height im)) (\<lambda>_.
          new_image mem (width im, height im)))"

definition resize :: "int \<Rightarrow> image \<Rightarrow> int \<times> int \<Rightarrow> exn + image" where
  "resize mem im new_size =
     (case new_size of (w, h) \<Rightarrow>
        if \<not> c_int w \<or> \<not> c_int h then Inl OverflowError
        else if w < 1 \<or> h < 1 then Inl ValueError
        else new_image mem (w, h))"

definition crop ::
  "int \<Rightarrow> image \<Rightarrow> py_float \<times> py_float \<times> py_float \<times> py_float \<Rightarrow> exn + image" where
  "crop mem im box =
     (case box of (left, upper, right, bottom) \<Rightarrow>
        if float_gt left right \<or> float_gt upper bottom then Inl ValueError
        else
        exn_bind (py_round left) (\<lambda>x0.
        exn_bind (py_round upper) (\<lambda>y0.
        exn_bind (py_round right) (\<lambda>x1.
        exn_bind (py_round bottom) (\<lambda>y1.
        exn_bind (decompression_bomb_check (\<bar>x1 - x0\<bar>, \<bar>y1 - y0\<bar>)) (\<lambda>_.
        new_image mem (max (x1 - x0) 0, max (y1 - y0) 0)))))))"

text \<open>\<^verbatim>\<open>n * x\<close> and \<^verbatim>\<open>x + n\<close> with an int \<open>n\<close>: the int is converted first.\<close>

definition int_mul_float :: "int \<Rightarrow> py_float \<Rightarrow> exn + py_float" where
  "int_mul_float n x = exn_bind (float_of_int n) (\<lambda>y. Inr (float_mul y x))"

definition float_mul_int :: "py_float \<Rightarrow> int \<Rightarrow> exn + py_float" where
  "float_mul_int x n = exn_bind (float_of_int n) (\<lambda>y. Inr (float_mul x y))"

definition float_add_int :: "py_float \<Rightarrow> int \<Rightarrow> exn + py_float" where
  "float_add_int x n = exn_bind (float_of_int n) (\<lambda>y. Inr (float_add x y))"

text \<open>The "compute cover resize" step: the size the image is resized to.\<close>

definition cover_size :: "image \<Rightarrow> int \<times> int \<Rightarrow> exn + (int \<times> int)" where
  "cover_size im output_size =
     (case output_size of (target_w, target_h) \<Rightarrow>
        exn_bind (int_truediv (width im) (height im)) (\<lambda>im_ratio.
        exn_bind (int_truediv target_w target_h) (\<lambda>target_ratio.
        if float_gt im_ratio target_ratio
        then exn_bind (int_truediv target_h (height im)) (\<lambda>r.
             exn_bind (int_mul_float (width im) r) (\<lambda>x.
             exn_bind (int_of_float x) (\<lambda>new_width.
             Inr (new_width, target_h))))
        else exn_bind (int_truediv target_w (width im)) (\<lambda>r.
             exn_bind (int_mul_float (height im) r) (\<lambda>x.
             exn_bind (int_of_float x) (\<lambda>new_height.
             Inr (target_w, new_height)))))))"

text \<open>The "center-crop to target size" step: the box handed to \<^verbatim>\<open>crop\<close>.\<close>

definition crop_box ::
  "int \<times> int \<Rightarrow> int \<times> int \<Rightarrow> exn + (py_float \<times> py_float \<times> py_float \<times> py_float)" where
  "crop_box new_size output_size =
     (case (new_size, output_size) of ((new_width, new_height), (target_w, target_h)) \<Rightarrow>
        exn_bind (int_truediv (new_width - target_w) 2) (\<lambda>left.
        exn_bind (int_truediv (new_height - target_h) 2) (\<lambda>upper.
        exn_bind (float_add_int left target_w) (\<lambda>right.
        exn_bind (float_add_int upper target_h) (\<lambda>bottom.
        Inr (left, upper, right, bottom))))))"

text \<open>
  \<open>uuid_hex\<close> is \<^verbatim>\<open>uuid.uuid4().hex\<close>, \<open>folder\<close> the upload folder, \<open>mem\<close> the
  memory of the machine, in pixels. The result is the returned file name and the folder
  afterwards.
\<close>

definition save_and_resize_image ::
  "int \<Rightarrow> string \<Rightarrow> (string \<rightharpoonup> image) \<Rightarrow> file_storage \<Rightarrow> int \<times> int
     \<Rightarrow> exn + (string option \<times> (string \<rightharpoonup> image))" where
  "save_and_resize_image mem uuid_hex folder file output_size =
     (if \<not> allowed_file (filename file) then Inr (None, folder)
      else
        let ext = lower (rsplit_last (filename file));
            unique_name = uuid_hex @ ''.'' @ ext
        in exn_bind (image_open mem (stream file)) (\<lambda>im.
           exn_bind (cover_size im output_size) (\<lambda>new_size.
           exn_bind (resize mem im new_size) (\<lambda>im_resized.
           exn_bind (crop_box new_size output_size) (\<lambda>box.
           exn_bind (crop mem im_resized box) (\<lambda>im_cropped.
           Inr (Some unique_name, folder(unique_name \<mapsto> im_cropped))))))))"

subsection \<open>Helpers: cart pricing\<close>

fun cart_total_loop :: "product list \<Rightarrow> (int \<times> int) list \<Rightarrow> int \<Rightarrow> int" where
  "cart_total_loop ps [] tot = tot"
| "cart_total_loop ps ((pid, qty) # rest) tot =
     (case get_product ps pid of
        None \<Rightarrow> cart_total_loop ps rest tot
      | Some p \<Rightarrow> cart_total_loop ps rest (tot + price_cents p * qty))"

definition cart_total_cents :: "product list \<Rightarrow> (int \<times> int) list \<Rightarrow> int" where
  "cart_total_cents ps c = cart_total_loop ps c 0"

subsection \<open>Routes: cart and checkout\<close>

fun view_cart_loop :: "product list \<Rightarrow> (int \<times> int) list \<Rightarrow> cart_item list \<Rightarrow> cart_item list"
  where
  "view_cart_loop ps [] its = its"
| "view_cart_loop ps ((pid, qty) # rest) its =
     (case get_product ps pid of
        None \<Rightarrow> view_cart_loop ps rest its
      | Some p \<Rightarrow> view_cart_loop ps rest (its @ [X p qty (price_cents p * qty)]))"

definition view_cart :: "app_state \<Rightarrow> response \<times> app_state" where
  "view_cart s =
     (let c = cart_get s;
          its = view_cart_loop (products s) c [];
          tot = cart_total_cents (products s) c
      in (Cart_page its tot, s))"

text \<open>\<^verbatim>\<open>Product.price\<close>: \<^verbatim>\<open>self.price_cents / 100.0\<close>\<close>

definition price :: "product \<Rightarrow> exn + py_float" where
  "price p = exn_bind (float_of_int (price_cents p)) (\<lambda>c. float_truediv c (Finite 100))"

text \<open>
  The first loop of \<^verbatim>\<open>checkout\<close> ends in one of three ways: with a flashed message and
  the redirect to the cart, with an exception, or at the end of the cart with the summary
  lines and the total.
\<close>

datatype verified = Flashed string | Failed exn | Verified "string list" int

fun checkout_verify ::
  "product list \<Rightarrow> (int \<times> int) list \<Rightarrow> string list \<Rightarrow> int \<Rightarrow> verified" where
  "checkout_verify ps [] items_summary tot = Verified items_summary tot"
| "checkout_verify ps ((pid, qty) # rest) items_summary tot =
     (case get_product ps pid of
        None \<Rightarrow> Flashed ''Product missing''
      | Some p \<Rightarrow>
          if stock p < qty
          then Flashed (''Not enough stock for '' @ name p @ ''. Available: ''
                        @ str_int (stock p))
          else (case price p of
                  Inl e \<Rightarrow> Failed e
                | Inr pr \<Rightarrow>
                    checkout_verify ps rest
                      (items_summary
                       @ [name p @ '' x'' @ str_int qty @ '' @ '' @ peso @ format_2f pr])
                      (tot + price_cents p * qty)))"

text \<open>The second loop: \<^verbatim>\<open>p.stock = max(p.stock - qty, 0)\<close> for each entry in turn.\<close>

fun checkout_decrement :: "product list \<Rightarrow> (int \<times> int) list \<Rightarrow> exn + product list" where
  "checkout_decrement ps [] = Inr ps"
| "checkout_decrement ps ((pid, qty) # rest) =
     (case get_product ps pid of
        None \<Rightarrow> Inl AttributeError
      | Some p \<Rightarrow>
          checkout_decrement (put_product ps (p\<lparr>stock := max (stock p - qty) 0\<rparr>)) rest)"

text \<open>
  \<^verbatim>\<open>redirect(url)\<close> of Flask is Werkzeug's. It sets the \<^verbatim>\<open>Location\<close> header to the
  URL, and a header value that holds a carriage return or a line feed is refused with
  \<^verbatim>\<open>ValueError\<close>. When the response is sent, the \<^verbatim>\<open>Location\<close> is left as it is if
  it is one word of ASCII characters, and goes through \<^verbatim>\<open>iri_to_uri\<close> if not:
  \<^verbatim>\<open>urlsplit\<close> drops tabs, carriage returns and line
  feeds, takes what follows the first \<^verbatim>\<open>#\<close> as the fragment and, of the rest, what
  follows the first \<^verbatim>\<open>?\<close> as the query; path, query and fragment are quoted each with
  its set of safe characters, and \<^verbatim>\<open>urlunsplit\<close> puts them together again, leaving out
  an empty query and an empty fragment. \<^verbatim>\<open>quote\<close> keeps the letters, the digits, the
  four characters \<^verbatim>\<open>_.-~\<close> and the safe characters, and writes every other byte of the
  UTF-8 encoding as \<^verbatim>\<open>%\<close> and two upper-case hexadecimal digits.
\<close>

definition hex_digit :: "nat \<Rightarrow> char" where
  "hex_digit n = ''0123456789ABCDEF'' ! n"

definition percent :: "char \<Rightarrow> string" where
  "percent c = [CHR ''%'', hex_digit (of_char c div 16), hex_digit (of_char c mod 16)]"

definition always_safe :: string where
  "always_safe = ''ABCDEFGHIJKLMNOPQRSTUVWXYZabcdefghijklmnopqrstuvwxyz0123456789_.-~''"

definition quote :: "string \<Rightarrow> string \<Rightarrow> string" where
  "quote safe s =
     concat (map (\<lambda>c. if c \<in> set (always_safe @ safe) then [c] else percent c) s)"

text \<open>The safe characters of the three parts; \<open>CHR 0x27\<close> is the apostrophe.\<close>

definition path_safe :: string where
  "path_safe = ''%!$&'' @ [CHR 0x27] @ ''()*+,/:;=@''"

definition query_safe :: string where
  "query_safe = ''%!$&'' @ [CHR 0x27] @ ''()*+,/:;=?@''"

definition fragment_safe :: string where
  "fragment_safe = ''%!#$&'' @ [CHR 0x27] @ ''()*+,/:;=?@''"

text \<open>\<^verbatim>\<open>s.split(c, 1)\<close> when \<open>c\<close> is in \<open>s\<close>, and \<open>s\<close> with the empty string when not.\<close>

definition split_first :: "char \<Rightarrow> string \<Rightarrow> string \<times> string" where
  "split_first c s = (takeWhile (\<lambda>x. x \<noteq> c) s, drop 1 (dropWhile (\<lambda>x. x \<noteq> c) s))"

text \<open>The tabs, carriage returns and line feeds that \<^verbatim>\<open>urlsplit\<close> drops.\<close>

definition remove_unsafe :: "string \<Rightarrow> string" where
  "remove_unsafe s = filter (\<lambda>c. c \<notin> set [CHR 0x09, CHR 0x0D, CHR 0x0A]) s"

text \<open>
  \<^verbatim>\<open>iri_to_uri\<close> on the URL \<^verbatim>\<open>https://m.me/\<close> followed by \<open>rest\<close>: the scheme is
  \<^verbatim>\<open>https\<close>, the host \<^verbatim>\<open>m.me\<close>, and the path begins at the slash after it.
\<close>

definition iri_to_uri :: "string \<Rightarrow> string" where
  "iri_to_uri rest =
     (let url = remove_unsafe rest;
          (url1, fragment) = split_first CHR ''#'' url;
          (path, query) = split_first CHR ''?'' url1
      in ''https://m.me'' @ quote path_safe (''/'' @ path)
         @ (if query = [] then [] else ''?'' @ quote query_safe query)
         @ (if fragment = [] then [] else ''#'' @ quote fragment_safe fragment))"

text \<open>
  The test \<^verbatim>\<open>len(iri.split(None, 1)) == 1\<close> on an ASCII string: it has a character
  that is not white space, and no white space but before its first and after its last.
\<close>

definition ascii_whitespace :: string where
  "ascii_whitespace =
     [CHR 0x09, CHR 0x0A, CHR 0x0B, CHR 0x0C, CHR 0x0D, CHR 0x1C, CHR 0x1D, CHR 0x1E, CHR 0x1F,
      CHR 0x20]"

definition one_word :: "string \<Rightarrow> bool" where
  "one_word t =
     (let t1 = dropWhile (\<lambda>c. c \<in> set ascii_whitespace) t;
          t2 = dropWhile (\<lambda>c. c \<notin> set ascii_whitespace) t1
      in t1 \<noteq> [] \<and> list_all (\<lambda>c. c \<in> set ascii_whitespace) t2)"

definition is_ascii :: "string \<Rightarrow> bool" where
  "is_ascii t = list_all (\<lambda>c. (of_char c :: nat) < 128) t"

text \<open>
  \<^verbatim>\<open>redirect\<close> of the URL \<^verbatim>\<open>https://m.me/\<close> followed by \<open>rest\<close>: the exception, or the
  \<^verbatim>\<open>Location\<close> that the client receives.
\<close>

definition redirect :: "string \<Rightarrow> exn + string" where
  "redirect rest =
     (let url = ''https://m.me/'' @ rest in
      if CHR 0x0D \<in> set url \<or> CHR 0x0A \<in> set url then Inl ValueError
      else if is_ascii url \<and> one_word url then Inr url
      else Inr (iri_to_uri rest))"

definition order_text ::
  "int \<Rightarrow> string list \<Rightarrow> int \<Rightarrow> string option \<Rightarrow> string option \<Rightarrow> exn + string" where
  "order_text oid items_summary tot cname address =
     (let t0 = ''Laptop Galleria Order%0AOrder#: '' @ str_int oid @ ''%0A'';
          t1 = foldl (\<lambda>t line. t @ ''- '' @ line @ ''%0A'') t0 items_summary
      in exn_bind (int_truediv tot 100) (\<lambda>amount.
         Inr (t1 @ ''%0ATotal: '' @ peso @ format_2f amount @ ''%0AName: '' @ str_opt cname
              @ ''%0AAddress: '' @ str_opt address)))"

text \<open>
  \<open>page_username\<close> is the configured \<^verbatim>\<open>PAGE_USERNAME\<close>, \<open>utcnow\<close> the clock read for
  \<^verbatim>\<open>created_at\<close>, \<open>cname\<close> and \<open>address\<close> the two form fields. The string of
  \<open>Redirect_messenger\<close> is the \<^verbatim>\<open>Location\<close> of the response.
\<close>

definition checkout ::
  "string \<Rightarrow> nat \<Rightarrow> string option \<Rightarrow> string option \<Rightarrow> app_state \<Rightarrow> response \<times> app_state"
  where
  "checkout page_username utcnow cname address s =
     (let c = cart_get s in
      if c = [] then (Redirect_view_cart, flash ''Cart is empty'' s)
      else
        case checkout_verify (products s) c [] 0 of
          Flashed msg \<Rightarrow> (Redirect_view_cart, flash msg s)
        | Failed e \<Rightarrow> (Raised e, s)
        | Verified items_summary tot \<Rightarrow>
            (case checkout_decrement (products s) c of
               Inl e \<Rightarrow> (Raised e, s)
             | Inr ps \<Rightarrow>
                 let new_order = \<lparr>o_id = next_id (map o_id (orders s)), created_at = utcnow,
                                  customer_name = cname, customer_address = address,
                                  items = join ''; '' items_summary, total_cents = tot\<rparr>;
                     s1 = cart_set [] (s\<lparr>products := ps, orders := orders s @ [new_order]\<rparr>)
                 in (case order_text (o_id new_order) items_summary tot cname address of
                       Inl e \<Rightarrow> (Raised e, s1)
                     | Inr text \<Rightarrow>
                         (case redirect (page_username @ ''?text='' @ text) of
                            Inl e \<Rightarrow> (Raised e, s1)
                          | Inr location \<Rightarrow> (Redirect_messenger location, s1)))))"

subsection \<open>Routes: the admin's product forms\<close>

text \<open>
  A numeric form field, by what the handler's conversion makes of its text: the field is
  not in the form, it is the empty string, \<^verbatim>\<open>float\<close> (or \<^verbatim>\<open>int\<close>) raises
  \<^verbatim>\<open>ValueError\<close> on it, or the conversion returns \<open>v\<close>.
\<close>

datatype 'a field = Absent | Blank | Invalid | Value 'a

text \<open>
  \<^verbatim>\<open>float(t)\<close> on a decimal numeral \<open>t\<close> that denotes the rational \<open>d\<close>: the nearest
  double.
\<close>

definition float_of_decimal :: "rat \<Rightarrow> py_float" where
  "float_of_decimal d = float_round d"

record add_form =
  form_name :: "string option"
  form_slug :: "string option"
  form_description :: "string option"
  form_price :: "py_float field"
  form_stock :: "int field"
  form_image :: "file_storage option"

record edit_form =
  price_in :: "py_float field"
  stock_in :: "int field"
  image_in :: "file_storage option"

text \<open>\<^verbatim>\<open>float(request.form.get('price', '0') or 0)\<close>, and the same with \<^verbatim>\<open>int\<close>.\<close>

definition float_or_0 :: "py_float field \<Rightarrow> exn + py_float" where
  "float_or_0 f =
     (case f of Absent \<Rightarrow> Inr (Finite 0) | Blank \<Rightarrow> Inr (Finite 0)
      | Invalid \<Rightarrow> Inl ValueError | Value x \<Rightarrow> Inr x)"

definition int_or_0 :: "int field \<Rightarrow> exn + int" where
  "int_or_0 f =
     (case f of Absent \<Rightarrow> Inr 0 | Blank \<Rightarrow> Inr 0
      | Invalid \<Rightarrow> Inl ValueError | Value n \<Rightarrow> Inr n)"

text \<open>\<^verbatim>\<open>int(price * 100)\<close>\<close>

definition to_cents :: "py_float \<Rightarrow> exn + int" where
  "to_cents x = exn_bind (float_mul_int x 100) int_of_float"

text \<open>
  \<^verbatim>\<open>if img and img.filename: filename = save_and_resize_image(img, (600,400))\<close>,
  with \<^verbatim>\<open>filename = None\<close> otherwise.
\<close>

definition save_upload ::
  "int \<Rightarrow> string \<Rightarrow> (string \<rightharpoonup> image) \<Rightarrow> file_storage option
     \<Rightarrow> exn + (string option \<times> (string \<rightharpoonup> image))" where
  "save_upload mem uuid_hex folder img =
     (case img of
        None \<Rightarrow> Inr (None, folder)
      | Some file \<Rightarrow>
          if filename file = [] then Inr (None, folder)
          else save_and_resize_image mem uuid_hex folder file (600, 400))"

text \<open>
  The commit of a new product fails on the table's constraints: \<^verbatim>\<open>name\<close> and
  \<^verbatim>\<open>slug\<close> are not nullable and \<^verbatim>\<open>slug\<close> is unique. \<open>db_error\<close> is the text of the
  exception the storage engine raises then.
\<close>

definition admin_add ::
  "int \<Rightarrow> string \<Rightarrow> string \<Rightarrow> add_form \<Rightarrow> app_state \<Rightarrow> response \<times> app_state" where
  "admin_add mem uuid_hex db_error form s =
     (if \<not> session_admin s then (Redirect_admin, s)
      else
        case float_or_0 (form_price form) of
          Inl e \<Rightarrow> (Raised e, s)
        | Inr price_php \<Rightarrow>
        case int_or_0 (form_stock form) of
          Inl e \<Rightarrow> (Raised e, s)
        | Inr stock_n \<Rightarrow>
        case save_upload mem uuid_hex (uploads s) (form_image form) of
          Inl e \<Rightarrow> (Raised e, s)
        | Inr (fname, folder) \<Rightarrow>
        case to_cents price_php of
          Inl e \<Rightarrow> (Raised e, s\<lparr>uploads := folder\<rparr>)
        | Inr cents \<Rightarrow>
        case (form_name form, form_slug form) of
          (Some n, Some sl) \<Rightarrow>
            if sl \<in> set (map slug (products s))
            then (Redirect_admin,
                  flash (''Error creating product: '' @ db_error) (s\<lparr>uploads := folder\<rparr>))
            else (Redirect_admin,
                  flash ''Product created''
                    (s\<lparr>uploads := folder,
                       products := products s @
                         [\<lparr>p_id = next_id (map p_id (products s)), name = n, slug = sl,
                           description = form_description form, price_cents = cents,
                           image_filename = fname, stock = stock_n\<rparr>]\<rparr>))
        | _ \<Rightarrow>
            (Redirect_admin,
             flash (''Error creating product: '' @ db_error) (s\<lparr>uploads := folder\<rparr>)))"

text \<open>
  The \<^verbatim>\<open>try\<close> block of \<^verbatim>\<open>admin_edit\<close>: the product with the new price and stock, or
  the exception. Only \<^verbatim>\<open>ValueError\<close> is caught by the handler.
\<close>

definition edit_price_stock :: "edit_form \<Rightarrow> product \<Rightarrow> exn + product" where
  "edit_price_stock form p =
     exn_bind (case price_in form of
                 Absent \<Rightarrow> Inr p
               | Blank \<Rightarrow> Inr p
               | Invalid \<Rightarrow> Inl ValueError
               | Value x \<Rightarrow> exn_bind (to_cents x) (\<lambda>c. Inr (p\<lparr>price_cents := c\<rparr>)))
       (\<lambda>p1. case stock_in form of
                Absent \<Rightarrow> Inr p1
              | Blank \<Rightarrow> Inl ValueError
              | Invalid \<Rightarrow> Inl ValueError
              | Value n \<Rightarrow> Inr (p1\<lparr>stock := n\<rparr>))"

definition admin_edit ::
  "int \<Rightarrow> string \<Rightarrow> int \<Rightarrow> edit_form \<Rightarrow> app_state \<Rightarrow> response \<times> app_state" where
  "admin_edit mem uuid_hex product_id form s =
     (if \<not> session_admin s then (Redirect_admin, s)
      else
        case get_product (products s) product_id of
          None \<Rightarrow> (Not_found, s)
        | Some p \<Rightarrow>
        case edit_price_stock form p of
          Inl e \<Rightarrow>
            if e = ValueError then (Redirect_admin, flash ''Invalid price or stock'' s)
            else (Raised e, s)
        | Inr p1 \<Rightarrow>
        case save_upload mem uuid_hex (uploads s) (image_in form) of
          Inl e \<Rightarrow> (Raised e, s)
        | Inr (None, folder) \<Rightarrow>
            (Redirect_admin,
             flash ''Product updated'' (s\<lparr>uploads := folder, products := put_product (products s) p1\<rparr>))
        | Inr (Some fname, folder) \<Rightarrow>
            let folder1 = (case image_filename p1 of
                             None \<Rightarrow> folder
                           | Some old \<Rightarrow> if old = [] then folder else folder(old := None));
                p2 = p1\<lparr>image_filename := Some fname\<rparr>
            in (Redirect_admin,
                flash ''Product updated''
                  (s\<lparr>uploads := folder1, products := put_product (products s) p2\<rparr>)))"

subsection \<open>Vocabulary of the statements\<close>

text \<open>A cart entry passes the checks of the first checkout loop.\<close>

definition entry_ok :: "product list \<Rightarrow> int \<times> int \<Rightarrow> bool" where
  "entry_ok ps e =
     (case get_product ps (fst e) of None \<Rightarrow> False | Some p \<Rightarrow> snd e \<le> stock p)"

text \<open>The invariant of the product table: no stock and no price below zero.\<close>

definition products_ok :: "product list \<Rightarrow> bool" where
  "products_ok ps = list_all (\<lambda>p. 0 \<le> stock p \<and> 0 \<le> price_cents p) ps"

text \<open>
  A submitted price that is not below zero, and a submitted stock that is not below zero
  (a field that is missing, empty or not a number submits nothing).
\<close>

definition price_not_negative :: "py_float field \<Rightarrow> bool" where
  "price_not_negative f = (case f of Value x \<Rightarrow> \<not> float_gt (Finite 0) x | _ \<Rightarrow> True)"

definition stock_not_negative :: "int field \<Rightarrow> bool" where
  "stock_not_negative f = (case f of Value n \<Rightarrow> 0 \<le> n | _ \<Rightarrow> True)"

text \<open>
  A piece of the hand-off text as it stands in the \<^verbatim>\<open>Location\<close>, after the
  \<^verbatim>\<open>#\<close> of the \<^verbatim>\<open>Order#\<close> line; and the page's name as it stands in the path.
\<close>

definition uri_text :: "string \<Rightarrow> string" where
  "uri_text t = quote fragment_safe (remove_unsafe t)"

definition uri_path :: "string \<Rightarrow> string" where
  "uri_path t = quote path_safe (remove_unsafe t)"

section \<open>Properties\<close>

subsection \<open>Basic facts\<close>

lemma exn_bind_simps [simp]:
  "exn_bind (Inr v) f = f v"
  "exn_bind (Inl e) f = Inl e"
  by (simp_all add: exn_bind_def)

lemma exn_bind_Inr: "exn_bind m f = Inr v \<longleftrightarrow> (\<exists>x. m = Inr x \<and> f x = Inr v)"
  by (cases m) simp_all

lemma get_product_id: "get_product ps i = Some p \<Longrightarrow> p_id p = i"
  by (induction ps) (auto simp: get_product_def split: if_splits)

lemma get_product_mem: "get_product ps i = Some p \<Longrightarrow> p \<in> set ps"
  by (induction ps) (auto simp: get_product_def split: if_splits)

lemma get_put_product:
  "get_product (put_product ps p) i =
     (if i = p_id p \<and> get_product ps i \<noteq> None then Some p else get_product ps i)"
  by (induction ps) (auto simp: get_product_def put_product_def)

subsection \<open>Rounding to a double\<close>

text \<open>
  What the proofs about the normalizer need of \<open>round_double\<close>: an integer or a half of
  an integer below \<open>2^53\<close> is a double, and a positive number in the normal range is
  rounded with a relative error of at most \<open>2^-53\<close>.
\<close>

lemma bitlen_rat_bounds:
  assumes "0 < (p::int)"
  shows "(2::rat) powi (bitlen p - 1) \<le> of_int p" "(of_int p :: rat) < 2 powi (bitlen p)"
proof -
  from assms have b1: "1 \<le> bitlen p" by (auto simp: bitlen_alt_def)
  from bitlen_bounds[OF assms] have
    lo: "2 ^ nat (bitlen p - 1) \<le> p" and hi: "p < 2 ^ nat (bitlen p)" by auto
  from lo have "(of_int (2 ^ nat (bitlen p - 1)) :: rat) \<le> of_int p"
    by (simp only: of_int_le_iff)
  then show "(2::rat) powi (bitlen p - 1) \<le> of_int p"
    using b1 by (simp add: power_int_def)
  from hi have "(of_int p :: rat) < of_int (2 ^ nat (bitlen p))"
    by (simp only: of_int_less_iff)
  then show "(of_int p :: rat) < 2 powi (bitlen p)"
    using b1 by (simp add: power_int_def)
qed

lemma ilog2_bounds:
  assumes "0 < x"
  shows "2 powi (ilog2 x) \<le> x" "x < 2 powi (ilog2 x + 1)"
proof -
  obtain p q where pq: "quotient_of x = (p, q)" by (cases "quotient_of x")
  then have q: "0 < q" by (rule quotient_of_denom_pos)
  from pq have x: "x = of_int p / of_int q" by (rule quotient_of_div)
  with assms q have p: "0 < p" by (simp add: zero_less_divide_iff)
  let ?d = "bitlen p - bitlen q"
  note bp = bitlen_rat_bounds[OF p] and bq = bitlen_rat_bounds[OF q]
  have qpos: "(0::rat) < of_int q" using q by simp
  have up: "x < 2 powi (?d + 1)"
  proof -
    have "x < 2 powi (bitlen p) / 2 powi (bitlen q - 1)"
      unfolding x using bp(2) bq(1) qpos p
      by (intro frac_less) auto
    also have "\<dots> = 2 powi (?d + 1)"
      by (simp flip: power_int_diff) (simp add: algebra_simps)
    finally show ?thesis .
  qed
  have lo: "2 powi (?d - 1) \<le> x"
  proof -
    have "2 powi (bitlen p - 1) / 2 powi (bitlen q) \<le> x"
      unfolding x using bp(1) bq(2) qpos p
      by (intro frac_le) auto
    moreover have "(2::rat) powi (bitlen p - 1) / 2 powi (bitlen q) = 2 powi (?d - 1)"
      by (simp flip: power_int_diff) (simp add: algebra_simps)
    ultimately show ?thesis by simp
  qed
  have il: "ilog2 x = (if 2 powi ?d \<le> x then ?d else ?d - 1)"
    by (simp add: ilog2_def pq Let_def)
  show "2 powi (ilog2 x) \<le> x" using lo by (simp add: il)
  show "x < 2 powi (ilog2 x + 1)" using up by (auto simp: il)
qed

lemma ilog2_less:
  assumes "0 < x" "x < 2 powi k"
  shows "ilog2 x < k"
proof (rule ccontr)
  assume "\<not> ilog2 x < k"
  then have "k \<le> ilog2 x" by simp
  then have "(2::rat) powi k \<le> 2 powi (ilog2 x)"
    by (intro power_int_increasing) auto
  with ilog2_bounds(1)[OF assms(1)] assms(2) show False by simp
qed

lemma ilog2_ge:
  assumes "0 < x" "2 powi k \<le> x"
  shows "k \<le> ilog2 x"
proof (rule ccontr)
  assume "\<not> k \<le> ilog2 x"
  then have "ilog2 x + 1 \<le> k" by simp
  then have "(2::rat) powi (ilog2 x + 1) \<le> 2 powi k"
    by (intro power_int_increasing) auto
  with ilog2_bounds(2)[OF assms(1)] assms(2) show False by simp
qed

lemma ilog2_zero: "ilog2 0 = - 2"
  by code_simp

lemma round_half_even_of_int [simp]: "round_half_even (of_int n) = n"
  by (simp add: round_half_even_def)

lemma round_half_even_error: "\<bar>of_int (round_half_even y) - y\<bar> \<le> 1 / 2"
proof -
  have "of_int \<lfloor>y\<rfloor> \<le> y" "y < of_int \<lfloor>y\<rfloor> + 1" by linarith+
  then show ?thesis
    by (auto simp: round_half_even_def Let_def abs_le_iff)
qed

lemma round_half_even_add_even:
  assumes "even k"
  shows "round_half_even (x + of_int k) = round_half_even x + k"
proof -
  have f: "\<lfloor>x + of_int k\<rfloor> = \<lfloor>x\<rfloor> + k" by simp
  show ?thesis
    unfolding round_half_even_def Let_def f using assms by auto
qed

lemma round_half_even_nonneg: "0 \<le> x \<Longrightarrow> 0 \<le> round_half_even x"
  by (auto simp: round_half_even_def Let_def)

lemma round_double_representable:
  assumes k: "\<bar>k\<bar> < 2 ^ 53" and j: "- 1074 \<le> j"
  shows "round_double (of_int k * 2 powi j) = of_int k * 2 powi j"
proof (cases "k = 0")
  case True
  then show ?thesis by (simp add: round_double_def)
next
  case False
  let ?x = "of_int k * (2::rat) powi j"
  have x0: "?x \<noteq> 0" using False by simp
  have ax: "\<bar>?x\<bar> = of_int \<bar>k\<bar> * 2 powi j" by (simp add: abs_mult)
  have pos: "0 < \<bar>?x\<bar>" using x0 by simp
  have "(of_int \<bar>k\<bar> :: rat) < of_int (2 ^ 53)" using k by (simp only: of_int_less_iff)
  then have "\<bar>?x\<bar> < 2 ^ 53 * 2 powi j"
    unfolding ax by (intro mult_strict_right_mono) auto
  also have "\<dots> = 2 powi (53 + j)" by (simp add: power_int_add)
  finally have "ilog2 \<bar>?x\<bar> < 53 + j" by (rule ilog2_less[OF pos])
  then have e: "max (ilog2 \<bar>?x\<bar> - 52) (- 1074) \<le> j" using j by simp
  define e where "e = max (ilog2 \<bar>?x\<bar> - 52) (- 1074)"
  have ej: "e \<le> j" using e by (simp add: e_def)
  have "?x / 2 powi e = of_int k * 2 powi (j - e)"
    by (simp add: power_int_diff)
  also have "\<dots> = of_int (k * 2 ^ nat (j - e))"
    using ej by (simp add: power_int_def)
  finally have q: "?x / 2 powi e = of_int (k * 2 ^ nat (j - e))" .
  have "round_double ?x = of_int (round_half_even (?x / 2 powi e)) * 2 powi e"
    using x0 by (simp add: round_double_def e_def Let_def)
  also have "\<dots> = (?x / 2 powi e) * 2 powi e"
    unfolding q round_half_even_of_int ..
  also have "\<dots> = ?x" by simp
  finally show ?thesis .
qed

lemma round_double_of_int: "\<bar>n\<bar> < 2 ^ 53 \<Longrightarrow> round_double (of_int n) = of_int n"
  using round_double_representable[of n 0] by simp

lemma round_double_half: "\<bar>n\<bar> < 2 ^ 53 \<Longrightarrow> round_double (of_int n / 2) = of_int n / 2"
  using round_double_representable[of n "- 1"] by (simp add: power_int_minus field_simps)

lemma round_double_error:
  assumes "2 powi (- 1022) \<le> x"
  shows "\<bar>round_double x - x\<bar> \<le> x / 2 ^ 53"
proof -
  have pos: "0 < x" using assms by (rule less_le_trans[rotated]) simp
  then have ax: "\<bar>x\<bar> = x" by simp
  define l where "l = ilog2 x"
  have l: "- 1022 \<le> l" unfolding l_def using pos assms by (rule ilog2_ge)
  define e where "e = l - 52"
  have me: "max (ilog2 x - 52) (- 1074) = e" using l by (simp add: l_def e_def)
  define y where "y = x / 2 powi e"
  have rd: "round_double x = of_int (round_half_even y) * 2 powi e"
    using pos by (simp add: round_double_def Let_def me y_def)
  have xy: "x = y * 2 powi e" by (simp add: y_def)
  have "round_double x - x = (of_int (round_half_even y) - y) * 2 powi e"
  proof -
    have "(of_int (round_half_even y) - y) * 2 powi e
          = of_int (round_half_even y) * 2 powi e - y * 2 powi e"
      by (simp add: left_diff_distrib)
    with xy rd show ?thesis by simp
  qed
  then have "\<bar>round_double x - x\<bar> = \<bar>of_int (round_half_even y) - y\<bar> * 2 powi e"
    by (simp add: abs_mult)
  also have "\<dots> \<le> (1 / 2) * 2 powi e"
    by (intro mult_right_mono round_half_even_error) simp
  also have "\<dots> = 2 powi l / 2 ^ 53"
    by (simp add: e_def power_int_diff)
  also have "\<dots> \<le> x / 2 ^ 53"
    using ilog2_bounds(1)[OF pos] by (simp add: l_def divide_right_mono)
  finally show ?thesis .
qed

lemma round_double_nonneg: "0 \<le> x \<Longrightarrow> 0 \<le> round_double x"
  by (auto simp: round_double_def Let_def round_half_even_nonneg intro!: mult_nonneg_nonneg)

lemma float_round_Finite:
  assumes "\<bar>round_double x\<bar> < 2 ^ 1024"
  shows "float_round x = Finite (round_double x)"
proof (cases "round_double x = 0")
  case True
  then show ?thesis by (simp add: float_round_def ilog2_zero)
next
  case False
  then have "0 < \<bar>round_double x\<bar>" by simp
  moreover have "\<bar>round_double x\<bar> < 2 powi 1024" using assms by simp
  ultimately have "ilog2 \<bar>round_double x\<bar> < 1024" by (rule ilog2_less)
  then show ?thesis by (simp add: float_round_def Let_def)
qed

lemma float_round_near:
  assumes lo: "2 powi (- 1022) \<le> x" and hi: "x \<le> 2 ^ 1000"
  shows "\<exists>r. float_round x = Finite r \<and> x * (1 - 1 / 2 ^ 53) \<le> r \<and> r \<le> x * (1 + 1 / 2 ^ 53)"
proof -
  have pos: "0 < x" using lo by (rule less_le_trans[rotated]) simp
  from round_double_error[OF lo] have
    "round_double x - x \<le> x / 2 ^ 53" "- (round_double x - x) \<le> x / 2 ^ 53"
    by (simp_all only: abs_le_iff)
  then have a: "x - x / 2 ^ 53 \<le> round_double x" and b: "round_double x \<le> x + x / 2 ^ 53"
    by linarith+
  have small: "x / 2 ^ 53 \<le> x"
    using pos by (simp add: divide_le_eq)
  have "x + x / 2 ^ 53 \<le> 2 * x" using small by simp
  also have "\<dots> \<le> 2 * 2 ^ 1000" using hi by simp
  also have "\<dots> < (2::rat) ^ 1024" by simp
  finally have "x + x / 2 ^ 53 < 2 ^ 1024" .
  with b have "round_double x < 2 ^ 1024" by simp
  moreover have "0 \<le> round_double x" using a small by linarith
  ultimately have "\<bar>round_double x\<bar> < 2 ^ 1024" by simp
  from float_round_Finite[OF this] a b show ?thesis
    by (simp add: right_diff_distrib distrib_left)
qed

lemma float_round_exact:
  assumes "\<bar>n\<bar> < 2 ^ 53"
  shows "float_round (of_int n) = Finite (of_int n)"
    and "float_round (of_int n / 2) = Finite (of_int n / 2)"
proof -
  have "(of_int \<bar>n\<bar> :: rat) < of_int (2 ^ 53)" using assms by (simp only: of_int_less_iff)
  then have b: "\<bar>of_int n :: rat\<bar> < 2 ^ 53" by simp
  also have "\<dots> < (2::rat) ^ 1024" by simp
  finally have c: "\<bar>of_int n :: rat\<bar> < 2 ^ 1024" .
  show "float_round (of_int n) = Finite (of_int n)"
    using float_round_Finite[of "of_int n"] c by (simp add: round_double_of_int[OF assms])
  have "\<bar>of_int n / 2 :: rat\<bar> \<le> \<bar>of_int n\<bar>" by simp
  with c have "\<bar>of_int n / 2 :: rat\<bar> < 2 ^ 1024" by linarith
  then show "float_round (of_int n / 2) = Finite (of_int n / 2)"
    using float_round_Finite[of "of_int n / 2"] by (simp add: round_double_half[OF assms])
qed

lemma float_round_nonneg: "0 \<le> x \<Longrightarrow> float_round x = Finite r \<Longrightarrow> 0 \<le> r"
  using round_double_nonneg[of x] by (auto simp: float_round_def Let_def split: if_splits)

lemma float_of_int_exact: "\<bar>n\<bar> < 2 ^ 53 \<Longrightarrow> float_of_int n = Inr (Finite (of_int n))"
  by (simp add: float_of_int_def float_round_exact(1))

lemma float_of_int_100: "float_of_int 100 = Inr (Finite 100)"
  by code_simp

lemma int_truediv_near:
  assumes "0 < a" "a < 2 ^ 31" "0 < b" "b < 2 ^ 31"
  shows "\<exists>r. int_truediv a b = Inr (Finite r)
           \<and> of_int a / of_int b * (1 - 1 / 2 ^ 53) \<le> r
           \<and> r \<le> of_int a / of_int b * (1 + 1 / 2 ^ 53)"
proof -
  let ?x = "of_int a / of_int b :: rat"
  have a1: "(1::rat) \<le> of_int a" and b1: "(1::rat) \<le> of_int b"
    using assms by simp_all
  have "(of_int a :: rat) < of_int (2 ^ 31)" "(of_int b :: rat) < of_int (2 ^ 31)"
    using assms by (simp_all only: of_int_less_iff)
  then have a2: "(of_int a :: rat) \<le> 2 ^ 31" and b2: "(of_int b :: rat) \<le> 2 ^ 31" by simp_all
  have "1 / 2 ^ 31 \<le> 1 / (of_int b :: rat)"
    using b1 b2 by (intro divide_left_mono) auto
  also have "\<dots> \<le> ?x" using a1 b1 by (intro divide_right_mono) auto
  finally have "1 / 2 ^ 31 \<le> ?x" .
  moreover have "(2::rat) powi (- 1022) \<le> 1 / 2 ^ 31"
    by (simp add: power_int_minus field_simps)
  ultimately have lo: "2 powi (- 1022) \<le> ?x" by (rule order_trans[rotated])
  have "?x \<le> of_int a / 1" using a1 b1 by (intro divide_left_mono) auto
  also have "\<dots> \<le> 2 ^ 1000" using a2 by simp
  finally have hi: "?x \<le> 2 ^ 1000" .
  from float_round_near[OF lo hi] assms(3) show ?thesis
    by (auto simp: int_truediv_def)
qed

subsection \<open>Cart pricing\<close>

lemma cart_total_loop_sum:
  "cart_total_loop ps c tot =
     tot + (\<Sum>(pid, qty) \<leftarrow> filter (\<lambda>(pid, qty). get_product ps pid \<noteq> None) c.
              price_cents (the (get_product ps pid)) * qty)"
  by (induction ps c tot rule: cart_total_loop.induct) (auto split: option.splits)

lemma view_cart_loop_map:
  "view_cart_loop ps c its =
     its @ map (\<lambda>(pid, qty). X (the (get_product ps pid)) qty
                                (price_cents (the (get_product ps pid)) * qty))
             (filter (\<lambda>(pid, qty). get_product ps pid \<noteq> None) c)"
  by (induction ps c its rule: view_cart_loop.induct) (auto split: option.splits)

text \<open>
  C4. Pricing a cart: the grand total of \<open>cart_total_cents\<close> is the sum of
  \<open>price_cents * qty\<close> over exactly the entries whose product exists, the entries of a
  missing product being skipped; \<open>view_cart\<close> lists those same entries, each with its
  product, quantity and subtotal, next to that total, and returns the state (products,
  cart and all) as it found it.
\<close>

theorem cart_pricing_total:
  "cart_total_cents ps c =
     (\<Sum>(pid, qty) \<leftarrow> filter (\<lambda>(pid, qty). get_product ps pid \<noteq> None) c.
        price_cents (the (get_product ps pid)) * qty)
   \<and> view_cart s =
       (Cart_page
          (map (\<lambda>(pid, qty). X (the (get_product (products s) pid)) qty
                                 (price_cents (the (get_product (products s) pid)) * qty))
             (filter (\<lambda>(pid, qty). get_product (products s) pid \<noteq> None) (session_cart s)))
          (\<Sum>(pid, qty) \<leftarrow> filter (\<lambda>(pid, qty). get_product (products s) pid \<noteq> None)
                                (session_cart s).
             price_cents (the (get_product (products s) pid)) * qty),
        s)"
  by (simp add: cart_total_cents_def cart_total_loop_sum view_cart_def view_cart_loop_map
      cart_get_def Let_def)

subsection \<open>Checkout\<close>

lemma verify_Verified_ok:
  "checkout_verify ps c summ tot = Verified l t \<Longrightarrow> list_all (entry_ok ps) c"
  by (induction ps c summ tot rule: checkout_verify.induct)
     (auto simp: entry_ok_def split: option.splits if_splits sum.splits)

lemma verify_total:
  "checkout_verify ps c summ tot = Verified l t \<Longrightarrow> t = cart_total_loop ps c tot"
  by (induction ps c summ tot rule: checkout_verify.induct)
     (auto split: option.splits if_splits sum.splits)

lemma verify_append:
  "checkout_verify ps (pre @ rest) summ tot =
     (case checkout_verify ps pre summ tot of
        Verified l t \<Rightarrow> checkout_verify ps rest l t
      | Flashed m \<Rightarrow> Flashed m
      | Failed e \<Rightarrow> Failed e)"
  by (induction ps pre summ tot rule: checkout_verify.induct)
     (auto split: option.splits sum.splits)

lemma verify_lines:
  "checkout_verify ps c summ tot = Verified l t \<Longrightarrow>
   \<exists>lines. l = summ @ lines
     \<and> list_all2 (\<lambda>(pid, qty) line.
          \<exists>p pr. get_product ps pid = Some p \<and> price p = Inr pr
            \<and> line = name p @ '' x'' @ str_int qty @ '' @ '' @ peso @ format_2f pr) c lines"
proof (induction ps c summ tot rule: checkout_verify.induct)
  case (1 ps items_summary tot)
  then show ?case by simp
next
  case (2 ps pid qty rest items_summary tot)
  from "2.prems" obtain p pr where p: "get_product ps pid = Some p" and
    st: "\<not> stock p < qty" and pr: "price p = Inr pr"
    by (auto split: option.splits if_splits sum.splits)
  let ?line = "name p @ '' x'' @ str_int qty @ '' @ '' @ peso @ format_2f pr"
  from "2.prems" p st pr have
    "checkout_verify ps rest (items_summary @ [?line]) (tot + price_cents p * qty) = Verified l t"
    by simp
  from "2.IH"[OF p st pr this] obtain lines where
    l: "l = (items_summary @ [?line]) @ lines" and
    r: "list_all2 (\<lambda>(pid, qty) line.
          \<exists>p pr. get_product ps pid = Some p \<and> price p = Inr pr
            \<and> line = name p @ '' x'' @ str_int qty @ '' @ '' @ peso @ format_2f pr) rest lines"
    by blast
  show ?case
  proof (intro exI conjI)
    show "l = items_summary @ (?line # lines)" using l by simp
    show "list_all2 (\<lambda>(pid, qty) line.
          \<exists>p pr. get_product ps pid = Some p \<and> price p = Inr pr
            \<and> line = name p @ '' x'' @ str_int qty @ '' @ '' @ peso @ format_2f pr)
          ((pid, qty) # rest) (?line # lines)"
      using r p pr by simp
  qed
qed

lemma foldl_lines:
  "foldl (\<lambda>t line. t @ f line) t0 xs = t0 @ concat (map f xs)"
  by (induction xs arbitrary: t0) simp_all

lemma quote_append: "quote safe (a @ b) = quote safe a @ quote safe b"
  by (simp add: quote_def)

lemma remove_unsafe_append: "remove_unsafe (a @ b) = remove_unsafe a @ remove_unsafe b"
  by (simp add: remove_unsafe_def)

lemma uri_text_append: "uri_text (a @ b) = uri_text a @ uri_text b"
  by (simp add: uri_text_def remove_unsafe_append quote_append)

lemma uri_text_Nil: "uri_text [] = []"
  by (simp add: uri_text_def remove_unsafe_def quote_def)

lemma uri_text_concat: "uri_text (concat xs) = concat (map uri_text xs)"
  by (induction xs) (simp_all add: uri_text_append uri_text_Nil)

lemma uri_text_plain:
  assumes "set t \<subseteq> A" and "A \<subseteq> set (always_safe @ fragment_safe)"
    and "CHR 0x09 \<notin> A" "CHR 0x0D \<notin> A" "CHR 0x0A \<notin> A"
  shows "uri_text t = t"
proof -
  have "c \<notin> set [CHR 0x09, CHR 0x0D, CHR 0x0A]" if "c \<in> set t" for c
  proof -
    from that assms(1) have "c \<in> A" by blast
    with assms(3-5) have "c \<noteq> CHR 0x09" "c \<noteq> CHR 0x0D" "c \<noteq> CHR 0x0A" by blast+
    then show ?thesis by simp
  qed
  then have "filter (\<lambda>c. c \<notin> set [CHR 0x09, CHR 0x0D, CHR 0x0A]) t = t"
    by (intro filter_True ballI)
  then have r: "remove_unsafe t = t" by (simp only: remove_unsafe_def)
  have "\<forall>c \<in> set t. c \<in> set (always_safe @ fragment_safe)"
    using assms(1,2) by blast
  then have "concat (map (\<lambda>c. if c \<in> set (always_safe @ fragment_safe) then [c] else percent c) t) = t"
    by (induction t) simp_all
  with r show ?thesis by (simp only: uri_text_def quote_def)
qed

lemma digits_safe:
  "set ''0123456789'' \<subseteq> set (always_safe @ fragment_safe)"
  "CHR 0x09 \<notin> set ''0123456789''" "CHR 0x0D \<notin> set ''0123456789''"
  "CHR 0x0A \<notin> set ''0123456789''"
  by (simp_all add: always_safe_def)

lemma digit_mem: "k < 10 \<Longrightarrow> ''0123456789'' ! k \<in> set ''0123456789''"
  by (intro nth_mem) simp

lemma str_nat_digits: "set (str_nat n) \<subseteq> set ''0123456789''"
proof (induction n rule: str_nat.induct)
  case (1 n)
  show ?case
  proof (cases "n < 10")
    case True
    have "str_nat n = [''0123456789'' ! n]"
      using True by (subst str_nat.simps) simp
    with digit_mem[OF True] show ?thesis by simp
  next
    case False
    have e: "str_nat n = str_nat (n div 10) @ [''0123456789'' ! (n mod 10)]"
      using False by (subst str_nat.simps) simp
    have "n mod 10 < 10" by simp
    from digit_mem[OF this] 1[OF False] show ?thesis
      unfolding e by simp
  qed
qed

lemma uri_text_str_nat: "uri_text (str_nat n) = str_nat n"
  using str_nat_digits digits_safe by (rule uri_text_plain)

lemma uri_text_minus: "uri_text ''-'' = ''-''"
  by (simp add: uri_text_def remove_unsafe_def quote_def always_safe_def)

lemma uri_text_str_int: "uri_text (str_int i) = str_int i"
proof (cases "i < 0")
  case True
  then have "str_int i = ''-'' @ str_nat (nat (- i))" by (simp add: str_int_def)
  then show ?thesis by (simp only: uri_text_append uri_text_str_nat uri_text_minus)
next
  case False
  then show ?thesis by (simp add: str_int_def uri_text_str_nat)
qed

lemma uri_text_format_2f: "uri_text (format_2f x) = format_2f x"
proof (cases x)
  case (Finite a)
  define n where "n = nat (round_half_even (\<bar>a\<bar> * 100))"
  have 1: "n mod 100 div 10 < 10" "n mod 10 < 10" by simp_all
  have "set [''0123456789'' ! (n mod 100 div 10), ''0123456789'' ! (n mod 10)]
        \<subseteq> set ''0123456789''"
    using digit_mem[OF 1(1)] digit_mem[OF 1(2)] by simp
  then have d: "uri_text [''0123456789'' ! (n mod 100 div 10), ''0123456789'' ! (n mod 10)]
      = [''0123456789'' ! (n mod 100 div 10), ''0123456789'' ! (n mod 10)]"
    using digits_safe by (rule uri_text_plain)
  have p: "uri_text ''.'' = ''.''"
    by (simp add: uri_text_def remove_unsafe_def quote_def always_safe_def)
  have f: "format_2f x = (if a < 0 then ''-'' else '''') @ str_nat (n div 100) @ ''.''
         @ [''0123456789'' ! (n mod 100 div 10), ''0123456789'' ! (n mod 10)]"
    using Finite by (simp add: n_def Let_def)
  show ?thesis
    unfolding f uri_text_append d p uri_text_str_nat
    by (simp add: uri_text_minus uri_text_Nil)
next
  case PosInf
  then show ?thesis by (simp add: uri_text_def remove_unsafe_def quote_def always_safe_def)
next
  case NegInf
  then show ?thesis by (simp add: uri_text_def remove_unsafe_def quote_def always_safe_def)
next
  case NaN
  then show ?thesis by (simp add: uri_text_def remove_unsafe_def quote_def always_safe_def)
qed

lemma split_first_at:
  "c \<notin> set a \<Longrightarrow> split_first c (a @ c # b) = (a, b)"
  by (induction a) (auto simp: split_first_def)

lemma quote_slash: "quote path_safe (CHR ''/'' # t) = CHR ''/'' # quote path_safe t"
  by (simp add: quote_def path_safe_def always_safe_def)

lemma iri_to_uri_parts:
  assumes "CHR ''?'' \<notin> set p" "CHR ''#'' \<notin> set p" "CHR ''#'' \<notin> set q"
    and "remove_unsafe q \<noteq> []" and "remove_unsafe f \<noteq> []"
  shows "iri_to_uri (p @ CHR ''?'' # q @ CHR ''#'' # f)
         = ''https://m.me/'' @ uri_path p @ ''?'' @ quote query_safe (remove_unsafe q)
           @ ''#'' @ uri_text f"
proof -
  let ?p = "remove_unsafe p" and ?q = "remove_unsafe q" and ?f = "remove_unsafe f"
  have r: "remove_unsafe (p @ CHR ''?'' # q @ CHR ''#'' # f) = (?p @ CHR ''?'' # ?q) @ CHR ''#'' # ?f"
    by (simp add: remove_unsafe_def)
  have n: "CHR ''#'' \<notin> set (?p @ CHR ''?'' # ?q)" "CHR ''?'' \<notin> set ?p"
    using assms by (auto simp: remove_unsafe_def)
  show ?thesis
    unfolding iri_to_uri_def r Let_def split_first_at[OF n(1)] prod.case split_first_at[OF n(2)]
    using assms(4,5) by (simp add: uri_path_def uri_text_def quote_slash)
qed

lemma percent_safe: "set (percent c) \<subseteq> set (always_safe @ fragment_safe)"
proof -
  have h: "hex_digit k \<in> set (always_safe @ fragment_safe)" if "k < 16" for k
  proof -
    have "''0123456789ABCDEF'' ! k \<in> set ''0123456789ABCDEF''"
      using that by (intro nth_mem) simp
    moreover have "set ''0123456789ABCDEF'' \<subseteq> set (always_safe @ fragment_safe)"
      by (simp add: always_safe_def)
    ultimately show ?thesis unfolding hex_digit_def by blast
  qed
  have "(of_char c :: nat) < 256" by simp
  then have "(of_char c :: nat) div 16 < 16" "(of_char c :: nat) mod 16 < 16" by arith+
  from h[OF this(1)] h[OF this(2)] show ?thesis
    by (simp add: percent_def fragment_safe_def)
qed

lemma quote_safe:
  assumes "set safe \<subseteq> set (always_safe @ fragment_safe)"
  shows "set (quote safe t) \<subseteq> set (always_safe @ fragment_safe)"
proof -
  have "set (if c \<in> set (always_safe @ safe) then [c] else percent c)
        \<subseteq> set (always_safe @ fragment_safe)" for c
    using assms percent_safe[of c] by auto
  then show ?thesis unfolding quote_def by (induction t) simp_all
qed

lemma iri_to_uri_safe: "set (iri_to_uri rest) \<subseteq> set (always_safe @ fragment_safe)"
proof -
  have p: "set path_safe \<subseteq> set (always_safe @ fragment_safe)"
    by (simp add: path_safe_def fragment_safe_def)
  have q: "set query_safe \<subseteq> set (always_safe @ fragment_safe)"
    by (simp add: query_safe_def fragment_safe_def)
  have f: "set fragment_safe \<subseteq> set (always_safe @ fragment_safe)"
    by simp
  have l: "set ''https://m.me'' \<subseteq> set (always_safe @ fragment_safe)"
    "CHR ''?'' \<in> set (always_safe @ fragment_safe)"
    "CHR ''#'' \<in> set (always_safe @ fragment_safe)"
    by (simp_all add: always_safe_def fragment_safe_def)
  define A where "A = set (always_safe @ fragment_safe)"
  have "set (''https://m.me'' @ quote path_safe a
        @ (if b = [] then [] else ''?'' @ quote query_safe b)
        @ (if c = [] then [] else ''#'' @ quote fragment_safe c)) \<subseteq> A" for a b c
    using quote_safe[OF p, of a] quote_safe[OF q, of b] quote_safe[OF f, of c] l
    unfolding A_def [symmetric] by auto
  then show ?thesis
    unfolding iri_to_uri_def Let_def case_prod_beta A_def .
qed

lemma several_words:
  assumes "y \<notin> set ascii_whitespace"
  shows "\<not> list_all (\<lambda>c. c \<in> set ascii_whitespace)
             (dropWhile (\<lambda>c. c \<notin> set ascii_whitespace) (a @ CHR 0x20 # y # b))"
proof (induction a)
  case Nil
  have "CHR 0x20 \<in> set ascii_whitespace" by (simp add: ascii_whitespace_def)
  with assms show ?case by simp
next
  case (Cons c a)
  with assms show ?case by simp
qed

lemma not_one_word:
  assumes "x \<notin> set ascii_whitespace" and "y \<notin> set ascii_whitespace"
  shows "\<not> one_word (x # a @ CHR 0x20 # y # b)"
  using assms(1) several_words[OF assms(2), of a b] by (simp add: one_word_def)

lemma checkout_success:
  assumes "checkout pu now cn ad s = (Redirect_messenger u, s')"
  shows "\<exists>l t ps txt.
           session_cart s \<noteq> []
         \<and> checkout_verify (products s) (session_cart s) [] 0 = Verified l t
         \<and> checkout_decrement (products s) (session_cart s) = Inr ps
         \<and> order_text (next_id (map o_id (orders s))) l t cn ad = Inr txt
         \<and> redirect (pu @ ''?text='' @ txt) = Inr u
         \<and> s' = s\<lparr>products := ps,
                   orders := orders s @
                     [\<lparr>o_id = next_id (map o_id (orders s)), created_at = now,
                       customer_name = cn, customer_address = ad,
                       items = join ''; '' l, total_cents = t\<rparr>],
                   session_cart := []\<rparr>"
  using assms
  by (auto simp: checkout_def cart_get_def cart_set_def flash_def Let_def
           split: if_splits verified.splits sum.splits)

lemma checkout_not_verified:
  assumes "\<forall>l t. checkout_verify (products s) (session_cart s) [] 0 \<noteq> Verified l t"
  shows "(fst (checkout pu now cn ad s) = Redirect_view_cart
          \<or> (\<exists>e. fst (checkout pu now cn ad s) = Raised e))
       \<and> products (snd (checkout pu now cn ad s)) = products s
       \<and> orders (snd (checkout pu now cn ad s)) = orders s
       \<and> session_cart (snd (checkout pu now cn ad s)) = session_cart s"
  using assms
  by (auto simp: checkout_def cart_get_def cart_set_def flash_def Let_def
           split: if_splits verified.splits sum.splits)

lemma decrement_get:
  "distinct (map fst c) \<Longrightarrow> checkout_decrement ps c = Inr ps' \<Longrightarrow>
   get_product ps' i =
     (case map_of c i of
        None \<Rightarrow> get_product ps i
      | Some q \<Rightarrow> map_option (\<lambda>p. p\<lparr>stock := max (stock p - q) 0\<rparr>) (get_product ps i))"
proof (induction ps c arbitrary: ps' rule: checkout_decrement.induct)
  case (1 ps)
  then show ?case by simp
next
  case (2 ps pid qty rest)
  from "2.prems" obtain p where p: "get_product ps pid = Some p"
    by (auto split: option.splits)
  let ?ps1 = "put_product ps (p\<lparr>stock := max (stock p - qty) 0\<rparr>)"
  from "2.prems" p have dec: "checkout_decrement ?ps1 rest = Inr ps'" by simp
  from "2.prems" have d: "distinct (map fst rest)" and nin: "pid \<notin> fst ` set rest" by auto
  have pid: "p_id p = pid" using p by (rule get_product_id)
  have IH: "get_product ps' i =
     (case map_of rest i of
        None \<Rightarrow> get_product ?ps1 i
      | Some q \<Rightarrow> map_option (\<lambda>p. p\<lparr>stock := max (stock p - q) 0\<rparr>) (get_product ?ps1 i))"
    using "2.IH"[OF p d dec] .
  show ?case
  proof (cases "i = pid")
    case True
    with nin have "map_of rest i = None" by (simp add: map_of_eq_None_iff)
    with IH True p pid show ?thesis by (simp add: get_put_product split: option.splits)
  next
    case False
    with IH pid show ?thesis by (simp add: get_put_product split: option.splits)
  qed
qed

text \<open>The seed data, evaluated: a cart of two Lenovo IdeaPads checks out.\<close>

lemma price_2500000: "price_cents p = 2500000 \<Longrightarrow> price p = Inr (Finite 25000)"
proof -
  have "exn_bind (float_of_int 2500000) (\<lambda>c. float_truediv c (Finite 100))
        = Inr (Finite 25000)"
    by code_simp
  then show "price_cents p = 2500000 \<Longrightarrow> price p = Inr (Finite 25000)"
    by (simp only: price_def)
qed

lemma truediv_5000000: "int_truediv 5000000 100 = Inr (Finite 50000)"
  by code_simp

lemma redirect_two_ideapads:
  "redirect (''shop?text=Laptop Galleria Order%0AOrder#: 1%0A- Lenovo IdeaPad x2 @ ''
             @ peso @ ''25000.00%0A%0ATotal: '' @ peso
             @ ''50000.00%0AName: Ann%0AAddress: 1 Main St'')
   = Inr (''https://m.me/shop?text=Laptop%20Galleria%20Order%0AOrder#:%201%0A''
          @ ''-%20Lenovo%20IdeaPad%20x2%20@%20%E2%82%B125000.00%0A%0A''
          @ ''Total:%20%E2%82%B150000.00%0AName:%20Ann%0AAddress:%201%20Main%20St'')"
  by (simp add: redirect_def is_ascii_def iri_to_uri_def remove_unsafe_def split_first_def
      quote_def fragment_safe_def query_safe_def path_safe_def always_safe_def percent_def
      hex_digit_def peso_def)

lemma checkout_two_ideapads:
  "fst (checkout ''shop'' 7 (Some ''Ann'') (Some ''1 Main St'')
          (init_db\<lparr>session_cart := [(1, 2)]\<rparr>))
   = Redirect_messenger
       (''https://m.me/shop?text=Laptop%20Galleria%20Order%0AOrder#:%201%0A''
        @ ''-%20Lenovo%20IdeaPad%20x2%20@%20%E2%82%B125000.00%0A%0A''
        @ ''Total:%20%E2%82%B150000.00%0AName:%20Ann%0AAddress:%201%20Main%20St'')"
proof -
  have "order_text 1 [''Lenovo IdeaPad x2 @ '' @ peso @ ''25000.00''] 5000000
          (Some ''Ann'') (Some ''1 Main St'')
        = Inr (''Laptop Galleria Order%0AOrder#: 1%0A- Lenovo IdeaPad x2 @ ''
               @ peso @ ''25000.00%0A%0ATotal: '' @ peso
               @ ''50000.00%0AName: Ann%0AAddress: 1 Main St'')"
    by (simp add: order_text_def truediv_5000000 str_int_def str_nat.simps str_opt_def
        round_half_even_def Let_def)
  then show ?thesis
    using redirect_two_ideapads
    by (simp add: checkout_def cart_get_def cart_set_def init_db_def price_2500000
        samples_def str_int_def str_nat.simps round_half_even_def Let_def next_id_def
        put_product_def get_product_def)
qed

text \<open>
  A line feed in the customer's name: \<^verbatim>\<open>redirect\<close> raises after the commit, so the
  order is stored and the cart emptied, and the response is the error.
\<close>

lemma checkout_line_feed:
  "fst (checkout ''shop'' 7 (Some [CHR ''A'', CHR 0x0A, CHR ''B'']) (Some ''1 Main St'')
          (init_db\<lparr>session_cart := [(1, 2)]\<rparr>)) = Raised ValueError
   \<and> session_cart (snd (checkout ''shop'' 7 (Some [CHR ''A'', CHR 0x0A, CHR ''B''])
                           (Some ''1 Main St'') (init_db\<lparr>session_cart := [(1, 2)]\<rparr>))) = []
   \<and> map total_cents (orders (snd (checkout ''shop'' 7 (Some [CHR ''A'', CHR 0x0A, CHR ''B''])
                           (Some ''1 Main St'') (init_db\<lparr>session_cart := [(1, 2)]\<rparr>))))
     = [5000000]"
  by (simp add: checkout_def cart_get_def cart_set_def init_db_def price_2500000
      truediv_5000000 order_text_def redirect_def samples_def str_int_def str_nat.simps
      str_opt_def round_half_even_def Let_def next_id_def put_product_def get_product_def)

text \<open>
  C1. Checkout is all-or-nothing. If the cart is empty, or some cart entry names a product
  that does not exist or asks for more than that product's stock, then checkout fails:
  it answers with the redirect back to the cart (or stops on an exception), and the
  products (so every stock), the orders and the cart are what they were.
\<close>

theorem checkout_all_or_nothing:
  assumes "session_cart s = []
         \<or> (\<exists>(pid, qty) \<in> set (session_cart s).
               case get_product (products s) pid of None \<Rightarrow> True | Some p \<Rightarrow> stock p < qty)"
  shows "(fst (checkout pu now cn ad s) = Redirect_view_cart
          \<or> (\<exists>e. fst (checkout pu now cn ad s) = Raised e))
       \<and> products (snd (checkout pu now cn ad s)) = products s
       \<and> orders (snd (checkout pu now cn ad s)) = orders s
       \<and> session_cart (snd (checkout pu now cn ad s)) = session_cart s"
proof (cases "session_cart s = []")
  case True
  then show ?thesis by (simp add: checkout_def cart_get_def flash_def)
next
  case False
  with assms obtain pid qty where e: "(pid, qty) \<in> set (session_cart s)"
    and bad: "case get_product (products s) pid of None \<Rightarrow> True | Some p \<Rightarrow> stock p < qty"
    by auto
  have "checkout_verify (products s) (session_cart s) [] 0 \<noteq> Verified l t" for l t
  proof
    assume "checkout_verify (products s) (session_cart s) [] 0 = Verified l t"
    then have "list_all (entry_ok (products s)) (session_cart s)"
      by (rule verify_Verified_ok)
    with e have "entry_ok (products s) (pid, qty)" by (auto simp: list_all_iff)
    with bad show False by (auto simp: entry_ok_def split: option.splits)
  qed
  then show ?thesis using checkout_not_verified by blast
qed

theorem checkout_all_or_nothing_witness:
  "(fst (checkout ''shop'' 7 (Some ''Ann'') (Some ''1 Main St'')
           (init_db\<lparr>session_cart := [(1, 2), (3, 5), (9, 1)]\<rparr>)) = Redirect_view_cart
    \<or> (\<exists>e. fst (checkout ''shop'' 7 (Some ''Ann'') (Some ''1 Main St'')
                  (init_db\<lparr>session_cart := [(1, 2), (3, 5), (9, 1)]\<rparr>)) = Raised e))
   \<and> products (snd (checkout ''shop'' 7 (Some ''Ann'') (Some ''1 Main St'')
                       (init_db\<lparr>session_cart := [(1, 2), (3, 5), (9, 1)]\<rparr>))) = samples
   \<and> orders (snd (checkout ''shop'' 7 (Some ''Ann'') (Some ''1 Main St'')
                     (init_db\<lparr>session_cart := [(1, 2), (3, 5), (9, 1)]\<rparr>))) = []
   \<and> session_cart (snd (checkout ''shop'' 7 (Some ''Ann'') (Some ''1 Main St'')
                           (init_db\<lparr>session_cart := [(1, 2), (3, 5), (9, 1)]\<rparr>)))
     = [(1, 2), (3, 5), (9, 1)]"
proof -
  let ?s = "init_db\<lparr>session_cart := [(1, 2), (3, 5), (9, 1)]\<rparr>"
  have "case get_product (products ?s) 3 of None \<Rightarrow> True | Some p \<Rightarrow> stock p < 5"
    by (simp add: init_db_def samples_def get_product_def)
  then have "session_cart ?s = []
         \<or> (\<exists>(pid, qty) \<in> set (session_cart ?s).
               case get_product (products ?s) pid of None \<Rightarrow> True | Some p \<Rightarrow> stock p < qty)"
    by simp
  from checkout_all_or_nothing[OF this, of "''shop''" 7 "Some ''Ann''" "Some ''1 Main St''"]
  show ?thesis by (simp add: init_db_def)
qed

text \<open>
  C2. After a successful checkout (the one that answers with the hand-off redirect; every
  entry has then passed the checks), each line of the cart has taken its quantity off the
  stock of its product, and the new stock is not negative. The cart is a dict: its keys
  are distinct.
\<close>

theorem checkout_decrements_stock:
  assumes "distinct (map fst (session_cart s))"
    and "checkout pu now cn ad s = (Redirect_messenger u, s')"
    and "(pid, qty) \<in> set (session_cart s)"
  shows "\<exists>p p'. get_product (products s) pid = Some p
               \<and> get_product (products s') pid = Some p'
               \<and> stock p' = stock p - qty \<and> 0 \<le> stock p'"
proof -
  from checkout_success[OF assms(2)] obtain l t ps where
    v: "checkout_verify (products s) (session_cart s) [] 0 = Verified l t" and
    d: "checkout_decrement (products s) (session_cart s) = Inr ps" and
    s': "products s' = ps"
    by auto
  from verify_Verified_ok[OF v] assms(3) have "entry_ok (products s) (pid, qty)"
    by (auto simp: list_all_iff)
  then obtain p where p: "get_product (products s) pid = Some p" and le: "qty \<le> stock p"
    by (auto simp: entry_ok_def split: option.splits)
  from assms(1,3) have m: "map_of (session_cart s) pid = Some qty" by simp
  have "get_product ps pid = Some (p\<lparr>stock := max (stock p - qty) 0\<rparr>)"
    using decrement_get[OF assms(1) d, of pid] m p by simp
  with p le s' show ?thesis by simp
qed

theorem checkout_decrements_stock_witness:
  "\<exists>p p'. get_product samples 1 = Some p
         \<and> get_product
             (products (snd (checkout ''shop'' 7 (Some ''Ann'') (Some ''1 Main St'')
                               (init_db\<lparr>session_cart := [(1, 2)]\<rparr>)))) 1 = Some p'
         \<and> stock p = 5 \<and> stock p' = 5 - 2 \<and> 0 \<le> stock p'"
proof -
  let ?s = "init_db\<lparr>session_cart := [(1, 2)]\<rparr>"
  let ?r = "checkout ''shop'' 7 (Some ''Ann'') (Some ''1 Main St'') ?s"
  obtain u where u: "fst ?r = Redirect_messenger u"
    using checkout_two_ideapads by blast
  have d: "distinct (map fst (session_cart ?s))" by simp
  have m: "(1, 2) \<in> set (session_cart ?s)" by simp
  have c: "?r = (Redirect_messenger u, snd ?r)"
    using u by (metis prod.collapse)
  have g: "get_product samples 1 = Some (samples ! 0)" "stock (samples ! 0) = 5"
    by (simp_all add: samples_def get_product_def)
  from checkout_decrements_stock[OF d c m] g show ?thesis
    by (auto simp: init_db_def)
qed

text \<open>
  C3. After a successful checkout the session cart is empty and the orders are the old
  ones and one new order; its \<open>total_cents\<close> is the grand total the cart priced at before
  the checkout, which is the sum of \<open>price_cents * qty\<close> over the entries of the cart (all
  of their products exist).
\<close>

theorem checkout_success_order:
  assumes "checkout pu now cn ad s = (Redirect_messenger u, s')"
  shows "session_cart s' = []
       \<and> (\<exists>ord. orders s' = orders s @ [ord]
              \<and> total_cents ord = cart_total_cents (products s) (session_cart s)
              \<and> total_cents ord =
                  (\<Sum>(pid, qty) \<leftarrow> session_cart s.
                     price_cents (the (get_product (products s) pid)) * qty))
       \<and> list_all (\<lambda>(pid, qty). get_product (products s) pid \<noteq> None) (session_cart s)"
proof -
  from checkout_success[OF assms] obtain l t ps where
    v: "checkout_verify (products s) (session_cart s) [] 0 = Verified l t" and
    s': "session_cart s' = []"
        "orders s' = orders s @
           [\<lparr>o_id = next_id (map o_id (orders s)), created_at = now,
             customer_name = cn, customer_address = ad,
             items = join ''; '' l, total_cents = t\<rparr>]"
    by auto
  have ex: "list_all (\<lambda>(pid, qty). get_product (products s) pid \<noteq> None) (session_cart s)"
    using verify_Verified_ok[OF v]
    by (auto simp: list_all_iff entry_ok_def split: option.splits)
  then have f: "filter (\<lambda>(pid, qty). get_product (products s) pid \<noteq> None) (session_cart s)
               = session_cart s"
    by (auto simp: list_all_iff intro: filter_True)
  have t: "t = cart_total_cents (products s) (session_cart s)"
    using verify_total[OF v] by (simp add: cart_total_cents_def)
  have "cart_total_cents (products s) (session_cart s) =
          (\<Sum>(pid, qty) \<leftarrow> session_cart s.
             price_cents (the (get_product (products s) pid)) * qty)"
    using cart_total_loop_sum[of "products s" "session_cart s" 0] f
    by (simp add: cart_total_cents_def)
  with s' t ex show ?thesis by simp
qed

theorem checkout_success_order_witness:
  "session_cart (snd (checkout ''shop'' 7 (Some ''Ann'') (Some ''1 Main St'')
                        (init_db\<lparr>session_cart := [(1, 2)]\<rparr>))) = []
   \<and> (\<exists>ord. orders (snd (checkout ''shop'' 7 (Some ''Ann'') (Some ''1 Main St'')
                            (init_db\<lparr>session_cart := [(1, 2)]\<rparr>))) = [ord]
          \<and> total_cents ord = 5000000)"
proof -
  let ?s = "init_db\<lparr>session_cart := [(1, 2)]\<rparr>"
  let ?r = "checkout ''shop'' 7 (Some ''Ann'') (Some ''1 Main St'') ?s"
  obtain u where u: "fst ?r = Redirect_messenger u"
    using checkout_two_ideapads by blast
  have c: "?r = (Redirect_messenger u, snd ?r)"
    using u by (metis prod.collapse)
  have g: "get_product samples 1 = Some (samples ! 0)" "price_cents (samples ! 0) = 2500000"
    by (simp_all add: samples_def get_product_def)
  from checkout_success_order[OF c] g show ?thesis
    by (auto simp: init_db_def)
qed

text \<open>
  C6, as the code has it. When checkout reaches a cart entry that asks for more than its
  product's stock (the entries before it having passed), it answers with the redirect to
  the cart, and the state is the old one with one more flashed message: the text
  \<^verbatim>\<open>Not enough stock for <name>. Available: <stock>\<close>. The message names the product and
  its available stock; the requested quantity is not in it. Cart, products and orders are
  unchanged.
\<close>

theorem checkout_insufficient_stock_report:
  assumes "session_cart s = pre @ (pid, qty) # post"
    and "checkout_verify (products s) pre [] 0 = Verified l t"
    and "get_product (products s) pid = Some p"
    and "stock p < qty"
  shows "checkout pu now cn ad s =
           (Redirect_view_cart,
            s\<lparr>flashes := flashes s @
                 [''Not enough stock for '' @ name p @ ''. Available: '' @ str_int (stock p)]\<rparr>)"
  using assms
  by (simp add: checkout_def cart_get_def flash_def verify_append)

theorem checkout_insufficient_stock_report_witness:
  "checkout ''shop'' 7 (Some ''Ann'') (Some ''1 Main St'') (init_db\<lparr>session_cart := [(3, 10)]\<rparr>)
   = (Redirect_view_cart,
      init_db\<lparr>session_cart := [(3, 10)],
              flashes := [''Not enough stock for Gaming PC. Available: 2'']\<rparr>)"
proof -
  let ?s = "init_db\<lparr>session_cart := [(3, 10)]\<rparr>"
  have c: "session_cart ?s = [] @ (3, 10) # []" by simp
  have v: "checkout_verify (products ?s) [] [] 0 = Verified [] 0" by simp
  have g: "get_product (products ?s) 3 = Some (samples ! 2)"
    by (simp add: init_db_def samples_def get_product_def)
  have l: "stock (samples ! 2) < 10" by (simp add: samples_def)
  from checkout_insufficient_stock_report[OF c v g l, of "''shop''" 7 "Some ''Ann''" "Some ''1 Main St''"]
  show ?thesis
    by (simp add: init_db_def samples_def str_int_def str_nat.simps)
qed

text \<open>
  C6 as stated fails: the report does not name the requested quantity. Asking for 10 or
  for 11 of a product with stock 2 gives the same message and the same response.
\<close>

theorem checkout_error_omits_requested_counterexample:
  "flashes (snd (checkout ''shop'' 7 (Some ''Ann'') (Some ''1 Main St'')
                   (init_db\<lparr>session_cart := [(3, 10)]\<rparr>)))
     = [''Not enough stock for Gaming PC. Available: 2'']
   \<and> flashes (snd (checkout ''shop'' 7 (Some ''Ann'') (Some ''1 Main St'')
                   (init_db\<lparr>session_cart := [(3, 11)]\<rparr>)))
     = [''Not enough stock for Gaming PC. Available: 2'']
   \<and> fst (checkout ''shop'' 7 (Some ''Ann'') (Some ''1 Main St'')
            (init_db\<lparr>session_cart := [(3, 10)]\<rparr>))
     = fst (checkout ''shop'' 7 (Some ''Ann'') (Some ''1 Main St'')
            (init_db\<lparr>session_cart := [(3, 11)]\<rparr>))"
  by (simp add: checkout_def cart_get_def flash_def init_db_def samples_def get_product_def
      str_int_def str_nat.simps)




subsection \<open>The admin's product forms\<close>

lemma to_cents_19_99: "to_cents (float_of_decimal (1999 / 100)) = Inr 1998"
  by code_simp

lemma float_of_decimal_19_99:
  "float_of_decimal (1999 / 100) = Finite (5626684784446013 / 281474976710656)"
  by code_simp

lemma to_cents_10: "to_cents (float_of_decimal 10) = Inr 1000"
  by code_simp

text \<open>
  C10. The admin's price text 19.99 is stored as 1998 cents, one cent short of the 1999 it
  denotes: \<^verbatim>\<open>float\<close> gives the double nearest to 19.99, which lies below it, the
  product with 100 rounds to a double still below 1999, and \<^verbatim>\<open>int\<close> truncates. So it
  is stored by \<open>admin_add\<close> and by \<open>admin_edit\<close>.
\<close>

theorem admin_price_19_99_is_1998_cents:
  "to_cents (float_of_decimal (1999 / 100)) = Inr 1998
   \<and> (1999 / 100 :: rat) * 100 = 1999
   \<and> map price_cents
        (products (snd (admin_add mem uuid_hex db_error
           \<lparr>form_name = Some ''Pen'', form_slug = Some ''pen'', form_description = None,
            form_price = Value (float_of_decimal (1999 / 100)), form_stock = Value 3,
            form_image = None\<rparr>
           \<lparr>products = [], orders = [], session_cart = [], session_admin = True,
            flashes = [], uploads = Map.empty\<rparr>))) = [1998]
   \<and> map price_cents
        (products (snd (admin_edit mem uuid_hex 1
           \<lparr>price_in = Value (float_of_decimal (1999 / 100)), stock_in = Absent,
            image_in = None\<rparr>
           (init_db\<lparr>session_admin := True\<rparr>))))
       = [1998, 1800000, 4500000, 250000, 120000]"
  by (simp add: to_cents_19_99 admin_add_def admin_edit_def float_or_0_def int_or_0_def
      save_upload_def flash_def edit_price_stock_def init_db_def samples_def get_product_def
      put_product_def next_id_def)

lemma to_cents_nonneg:
  assumes "\<not> float_gt (Finite 0) x" and "to_cents x = Inr c"
  shows "0 \<le> c"
proof (cases x)
  case (Finite a)
  with assms(1) have a: "0 \<le> a" by simp
  from assms(2) Finite obtain r where r: "float_round (a * 100) = Finite r"
    and c: "c = (if 0 \<le> r then \<lfloor>r\<rfloor> else \<lceil>r\<rceil>)"
    by (cases "float_round (a * 100)")
       (auto simp: to_cents_def float_mul_int_def float_of_int_100)
  from a have "0 \<le> a * 100" by simp
  from float_round_nonneg[OF this r] c show ?thesis by simp
next
  case PosInf
  with assms(2) show ?thesis by (simp add: to_cents_def float_mul_int_def float_of_int_100)
next
  case NegInf
  with assms(1) show ?thesis by simp
next
  case NaN
  with assms(2) show ?thesis by (simp add: to_cents_def float_mul_int_def float_of_int_100)
qed

lemma put_product_ok:
  "products_ok ps \<Longrightarrow> 0 \<le> stock p \<Longrightarrow> 0 \<le> price_cents p \<Longrightarrow> products_ok (put_product ps p)"
  by (auto simp: products_ok_def put_product_def list_all_iff)

lemma decrement_ok:
  "products_ok ps \<Longrightarrow> checkout_decrement ps c = Inr ps' \<Longrightarrow> products_ok ps'"
proof (induction ps c arbitrary: ps' rule: checkout_decrement.induct)
  case (1 ps)
  then show ?case by simp
next
  case (2 ps pid qty rest)
  from "2.prems" obtain p where p: "get_product ps pid = Some p"
    by (auto split: option.splits)
  from get_product_mem[OF p] "2.prems"(1) have "0 \<le> price_cents p"
    by (auto simp: products_ok_def list_all_iff)
  then have "products_ok (put_product ps (p\<lparr>stock := max (stock p - qty) 0\<rparr>))"
    using "2.prems"(1) by (intro put_product_ok) simp_all
  with "2.IH"[OF p] "2.prems"(2) p show ?case by simp
qed

lemma checkout_ok:
  assumes "products_ok (products s)"
  shows "products_ok (products (snd (checkout pu now cn ad s)))"
  using assms decrement_ok[of "products s" "session_cart s"]
  by (auto simp: checkout_def cart_get_def cart_set_def flash_def Let_def
           split: verified.splits sum.splits)

lemma admin_add_ok:
  assumes "products_ok (products s)"
    and "price_not_negative (form_price form)" and "stock_not_negative (form_stock form)"
  shows "products_ok (products (snd (admin_add mem uuid_hex db_error form s)))"
proof -
  have p: "float_or_0 (form_price form) = Inr x \<Longrightarrow> to_cents x = Inr c \<Longrightarrow> 0 \<le> c" for x c
    using assms(2) to_cents_nonneg[of x c]
    by (cases "form_price form") (auto simp: float_or_0_def price_not_negative_def)
  have q: "int_or_0 (form_stock form) = Inr n \<Longrightarrow> 0 \<le> n" for n
    using assms(3) by (cases "form_stock form") (auto simp: int_or_0_def stock_not_negative_def)
  show ?thesis
    using assms(1) p q
    by (auto simp: admin_add_def flash_def products_ok_def
             split: sum.splits prod.splits option.splits)
qed

lemma edit_price_stock_ok:
  assumes "0 \<le> stock p" "0 \<le> price_cents p"
    and "price_not_negative (price_in form)" and "stock_not_negative (stock_in form)"
    and "edit_price_stock form p = Inr p1"
  shows "0 \<le> stock p1 \<and> 0 \<le> price_cents p1 \<and> p_id p1 = p_id p"
  using assms to_cents_nonneg
  by (cases "price_in form"; cases "stock_in form")
     (auto simp: edit_price_stock_def price_not_negative_def stock_not_negative_def exn_bind_def
           split: sum.splits)

lemma admin_edit_ok:
  assumes "products_ok (products s)"
    and "price_not_negative (price_in form)" and "stock_not_negative (stock_in form)"
  shows "products_ok (products (snd (admin_edit mem uuid_hex product_id form s)))"
proof (cases "session_admin s")
  case False
  with assms(1) show ?thesis by (simp add: admin_edit_def)
next
  case True
  show ?thesis
  proof (cases "get_product (products s) product_id")
    case None
    with True assms(1) show ?thesis by (simp add: admin_edit_def)
  next
    case (Some p)
    from get_product_mem[OF Some] assms(1) have p: "0 \<le> stock p" "0 \<le> price_cents p"
      by (auto simp: products_ok_def list_all_iff)
    show ?thesis
    proof (cases "edit_price_stock form p")
      case (Inl e)
      with True Some assms(1) show ?thesis by (simp add: admin_edit_def flash_def)
    next
      case (Inr p1)
      from edit_price_stock_ok[OF p assms(2,3) Inr]
      have p1: "0 \<le> stock p1" "0 \<le> price_cents p1" by simp_all
      have a: "products_ok (put_product (products s) p1)"
        using assms(1) p1 by (rule put_product_ok)
      have b: "products_ok (put_product (products s) (p1\<lparr>image_filename := Some f\<rparr>))" for f
        using assms(1) p1 by (intro put_product_ok) simp_all
      show ?thesis
        using True Some Inr assms(1) a b
        by (auto simp: admin_edit_def flash_def Let_def split: sum.splits prod.splits option.splits)
    qed
  qed
qed

text \<open>
  C5, as the code has it. From a product table with no negative stock and no negative
  price, checkout leaves such a table; \<open>admin_add\<close> and \<open>admin_edit\<close> store the
  submitted stock and the converted price unchecked, and leave such a table when the
  submitted price and stock are not negative.
\<close>

theorem products_invariant_preserved:
  assumes "products_ok (products s)"
  shows "products_ok (products (snd (checkout pu now cn ad s)))
       \<and> (price_not_negative (form_price af) \<and> stock_not_negative (form_stock af)
            \<longrightarrow> products_ok (products (snd (admin_add mem uuid_hex db_error af s))))
       \<and> (price_not_negative (price_in ef) \<and> stock_not_negative (stock_in ef)
            \<longrightarrow> products_ok (products (snd (admin_edit mem uuid_hex product_id ef s))))"
  using checkout_ok[OF assms] admin_add_ok[OF assms] admin_edit_ok[OF assms] by blast

theorem products_invariant_preserved_witness:
  "products_ok (products (snd (checkout ''shop'' 7 (Some ''Ann'') (Some ''1 Main St'')
                                 (init_db\<lparr>session_admin := True, session_cart := [(1, 2)]\<rparr>))))
   \<and> products_ok (products (snd (admin_add 200000000 ''0f'' ''''
          \<lparr>form_name = Some ''Pen'', form_slug = Some ''pen'', form_description = None,
           form_price = Value (float_of_decimal (1999 / 100)), form_stock = Value 3,
           form_image = None\<rparr>
          (init_db\<lparr>session_admin := True, session_cart := [(1, 2)]\<rparr>))))
   \<and> products_ok (products (snd (admin_edit 200000000 ''0f'' 1
          \<lparr>price_in = Value (float_of_decimal (1999 / 100)), stock_in = Value 0,
           image_in = None\<rparr>
          (init_db\<lparr>session_admin := True, session_cart := [(1, 2)]\<rparr>))))"
proof -
  let ?s = "init_db\<lparr>session_admin := True, session_cart := [(1, 2)]\<rparr>"
  have h: "products_ok (products ?s)"
    by (simp add: products_ok_def init_db_def samples_def)
  have p: "price_not_negative (Value (float_of_decimal (1999 / 100)))"
    by (simp add: price_not_negative_def float_of_decimal_19_99)
  have q: "stock_not_negative (Value 3)" "stock_not_negative (Value 0)"
    by (simp_all add: stock_not_negative_def)
  from products_invariant_preserved[OF h, of "''shop''" 7 "Some ''Ann''" "Some ''1 Main St''"
      "\<lparr>form_name = Some ''Pen'', form_slug = Some ''pen'', form_description = None,
           form_price = Value (float_of_decimal (1999 / 100)), form_stock = Value 3,
           form_image = None\<rparr>" 200000000 "''0f''" "''''"
      "\<lparr>price_in = Value (float_of_decimal (1999 / 100)), stock_in = Value 0,
           image_in = None\<rparr>" 1] p q
  show ?thesis by simp
qed

text \<open>
  C5 as stated fails for the two admin forms: a stock of -5 is stored as submitted, by
  \<open>admin_add\<close> and by \<open>admin_edit\<close>.
\<close>

theorem admin_negative_stock_counterexample:
  "products_ok (products (init_db\<lparr>session_admin := True\<rparr>))
   \<and> \<not> products_ok (products (snd (admin_add 200000000 ''0f'' ''''
          \<lparr>form_name = Some ''Pen'', form_slug = Some ''pen'', form_description = None,
           form_price = Value (float_of_decimal 10), form_stock = Value (- 5),
           form_image = None\<rparr>
          (init_db\<lparr>session_admin := True\<rparr>))))
   \<and> \<not> products_ok (products (snd (admin_edit 200000000 ''0f'' 1
          \<lparr>price_in = Blank, stock_in = Value (- 5), image_in = None\<rparr>
          (init_db\<lparr>session_admin := True\<rparr>))))"
  by (simp add: products_ok_def init_db_def samples_def admin_add_def admin_edit_def
      float_or_0_def int_or_0_def save_upload_def to_cents_10 flash_def next_id_def
      get_product_def put_product_def edit_price_stock_def)

subsection \<open>The image normalizer: which files it takes\<close>

lemma rejected_returns_None:
  "\<not> allowed_file (filename file) \<Longrightarrow>
   save_and_resize_image mem uuid_hex folder file output_size = Inr (None, folder)"
  by (simp add: save_and_resize_image_def)

lemma accepted_never_None:
  "allowed_file (filename file) \<Longrightarrow>
   save_and_resize_image mem uuid_hex folder file output_size \<noteq> Inr (None, folder')"
  by (auto simp: save_and_resize_image_def Let_def exn_bind_Inr)

lemma accepted_undecodable_raises:
  "allowed_file (filename file) \<Longrightarrow> stream file = None \<Longrightarrow>
   save_and_resize_image mem uuid_hex folder file output_size = Inl UnidentifiedImageError"
  by (simp add: save_and_resize_image_def image_open_def Let_def)

lemma admin_add_rejected_image:
  assumes "\<not> allowed_file (filename file)"
  shows "admin_add mem uuid_hex db_error (af\<lparr>form_image := Some file\<rparr>) s
         = admin_add mem uuid_hex db_error (af\<lparr>form_image := None\<rparr>) s"
proof -
  have "save_upload mem uuid_hex (uploads s) (Some file) = save_upload mem uuid_hex (uploads s) None"
    using assms by (simp add: save_upload_def rejected_returns_None)
  then show ?thesis
    unfolding admin_add_def by (simp cong: sum.case_cong prod.case_cong option.case_cong if_cong)
qed

lemma ext_gif: "lower (rsplit_last ''photo.GIF'') = ''gif''"
  by (simp add: lower_def rsplit_last_def lower_char_def)

lemma ext_png: "lower (rsplit_last ''png'') = ''png''"
  by (simp add: lower_def rsplit_last_def lower_char_def)

lemma ext_jpg: "lower (rsplit_last ''photo.JPG'') = ''jpg''"
  by (simp add: lower_def rsplit_last_def lower_char_def)

lemma ext_a_png: "lower (rsplit_last ''a.png'') = ''png''"
  by (simp add: lower_def rsplit_last_def lower_char_def)

text \<open>
  C8, as the code has it. The normalizer returns \<^verbatim>\<open>None\<close> exactly when the text after
  the last dot of the file name (the whole name when it has no dot), in lower case, is
  none of jpg, jpeg, png, webp. It has then written nothing, and \<open>admin_add\<close> goes on as
  it does without an uploaded image. A file with an accepted name that does not decode
  gives no output either, but by the exception of \<^verbatim>\<open>Image.open\<close>.
\<close>

theorem normalizer_rejects_by_name:
  "((\<exists>folder'. save_and_resize_image mem uuid_hex folder file output_size = Inr (None, folder'))
      \<longleftrightarrow> lower (rsplit_last (filename file)) \<notin> {''jpg'', ''jpeg'', ''png'', ''webp''})
   \<and> (lower (rsplit_last (filename file)) \<notin> {''jpg'', ''jpeg'', ''png'', ''webp''}
        \<longrightarrow> save_and_resize_image mem uuid_hex folder file output_size = Inr (None, folder)
          \<and> admin_add mem uuid_hex db_error (af\<lparr>form_image := Some file\<rparr>) s
            = admin_add mem uuid_hex db_error (af\<lparr>form_image := None\<rparr>) s)
   \<and> (lower (rsplit_last (filename file)) \<in> {''jpg'', ''jpeg'', ''png'', ''webp''}
          \<and> stream file = None
        \<longrightarrow> save_and_resize_image mem uuid_hex folder file output_size
            = Inl UnidentifiedImageError)"
proof -
  have a: "allowed_file (filename file)
           \<longleftrightarrow> lower (rsplit_last (filename file)) \<in> {''jpg'', ''jpeg'', ''png'', ''webp''}"
    by (simp add: allowed_file_def Let_def)
  show ?thesis
  proof (cases "allowed_file (filename file)")
    case True
    then show ?thesis
      unfolding a [symmetric]
      using accepted_never_None[OF True] accepted_undecodable_raises[OF True] by simp
  next
    case False
    then show ?thesis
      unfolding a [symmetric]
      using rejected_returns_None[OF False] admin_add_rejected_image[OF False] by simp
  qed
qed

theorem normalizer_rejects_by_name_witness:
  "save_and_resize_image 200000000 ''0f'' Map.empty
     \<lparr>filename = ''photo.GIF'', stream = Some \<lparr>width = 800, height = 600\<rparr>\<rparr> (600, 400)
   = Inr (None, Map.empty)
   \<and> map image_filename (products (snd (admin_add 200000000 ''0f'' ''''
         \<lparr>form_name = Some ''Pen'', form_slug = Some ''pen'', form_description = None,
          form_price = Value (float_of_decimal 10), form_stock = Value 3,
          form_image = Some \<lparr>filename = ''photo.GIF'',
                              stream = Some \<lparr>width = 800, height = 600\<rparr>\<rparr>\<rparr>
         (init_db\<lparr>session_admin := True\<rparr>))))
     = [None, None, None, None, None, None]
   \<and> save_and_resize_image 200000000 ''0f'' Map.empty \<lparr>filename = ''a.png'', stream = None\<rparr> (600, 400)
     = Inl UnidentifiedImageError"
proof -
  let ?file = "\<lparr>filename = ''photo.GIF'', stream = Some \<lparr>width = 800, height = 600\<rparr>\<rparr>"
  let ?bad = "\<lparr>filename = ''a.png'', stream = None\<rparr>"
  let ?af = "\<lparr>form_name = Some ''Pen'', form_slug = Some ''pen'', form_description = None,
          form_price = Value (float_of_decimal 10), form_stock = Value 3,
          form_image = None\<rparr>"
  have n: "lower (rsplit_last (filename ?file)) \<notin> {''jpg'', ''jpeg'', ''png'', ''webp''}"
    by (simp add: ext_gif)
  have e: "map image_filename (products (snd (admin_add 200000000 ''0f'' '''' ?af
             (init_db\<lparr>session_admin := True\<rparr>))))
           = [None, None, None, None, None, None]"
    by (simp add: admin_add_def float_or_0_def int_or_0_def save_upload_def to_cents_10
        flash_def init_db_def samples_def)
  from normalizer_rejects_by_name[of 200000000 "''0f''" Map.empty ?file "(600, 400)" "''''" ?af
      "init_db\<lparr>session_admin := True\<rparr>"] n e
  have 1: "save_and_resize_image 200000000 ''0f'' Map.empty ?file (600, 400) = Inr (None, Map.empty)"
    and 2: "map image_filename (products (snd (admin_add 200000000 ''0f''
             [] (?af\<lparr>form_image := Some ?file\<rparr>) (init_db\<lparr>session_admin := True\<rparr>))))
           = [None, None, None, None, None, None]"
    by simp_all
  from normalizer_rejects_by_name[of 200000000 "''0f''" Map.empty ?bad "(600, 400)"]
  have 3: "save_and_resize_image 200000000 ''0f'' Map.empty ?bad (600, 400) = Inl UnidentifiedImageError"
    by (simp add: ext_a_png)
  from 1 2 3 show ?thesis by simp
qed

lemma cover_1920: "cover_size \<lparr>width = 1920, height = 1080\<rparr> (600, 400) = Inr (711, 400)"
  by code_simp

lemma box_711: "crop_box (711, 400) (600, 400)
   = Inr (Finite (111 / 2), Finite 0, Finite (1311 / 2), Finite 400)"
  by code_simp

lemma crop_711: "crop 200000000 \<lparr>width = 711, height = 400\<rparr>
    (Finite (111 / 2), Finite 0, Finite (1311 / 2), Finite 400) = Inr \<lparr>width = 600, height = 400\<rparr>"
  by code_simp

text \<open>
  C8 as stated fails in both directions of its "if and only if". A file named
  \<^verbatim>\<open>png\<close> has no extension, yet the normalizer accepts it and writes its output. A file
  \<^verbatim>\<open>a.png\<close> whose bytes are no image has an allowed extension, yet nothing is returned
  and nothing written: \<^verbatim>\<open>Image.open\<close> raises, and then \<open>admin_add\<close> creates no product.
\<close>

theorem dotless_name_accepted_counterexample:
  "CHR ''.'' \<notin> set ''png''
   \<and> save_and_resize_image 200000000 ''0f'' Map.empty
        \<lparr>filename = ''png'', stream = Some \<lparr>width = 1920, height = 1080\<rparr>\<rparr> (600, 400)
      = Inr (Some ''0f.png'', [''0f.png'' \<mapsto> \<lparr>width = 600, height = 400\<rparr>])
   \<and> save_and_resize_image 200000000 ''0f'' Map.empty \<lparr>filename = ''a.png'', stream = None\<rparr> (600, 400)
      = Inl UnidentifiedImageError
   \<and> admin_add 200000000 ''0f'' ''''
        \<lparr>form_name = Some ''Pen'', form_slug = Some ''pen'', form_description = None,
         form_price = Value (float_of_decimal 10), form_stock = Value 3,
         form_image = Some \<lparr>filename = ''a.png'', stream = None\<rparr>\<rparr>
        (init_db\<lparr>session_admin := True\<rparr>)
      = (Raised UnidentifiedImageError, init_db\<lparr>session_admin := True\<rparr>)"
  by (simp add: save_and_resize_image_def allowed_file_def ext_png ext_a_png image_open_def
      decompression_bomb_check_def max_image_pixels_def new_image_def c_int_def
      cover_1920 resize_def box_711 crop_711 Let_def admin_add_def float_or_0_def int_or_0_def
      save_upload_def init_db_def)

subsection \<open>The image normalizer: the size of its output\<close>

lemma scaled_side:
  assumes a: "0 < a" "a < 2 ^ 31" and b: "0 < b" "b < 2 ^ 31" and t: "0 < t" "t < 2 ^ 16"
    and q: "3 / 2 \<le> (of_int a * of_int t / of_int b :: rat)"
  shows "\<exists>r x n. int_truediv t b = Inr r \<and> int_mul_float a r = Inr x \<and> int_of_float x = Inr n
           \<and> 1 \<le> n \<and> n < 2 ^ 48
           \<and> of_int n \<le> (of_int a * of_int t / of_int b + 1 :: rat)
           \<and> (of_int a * of_int t / of_int b :: rat) * (1 - 1 / 2 ^ 53) * (1 - 1 / 2 ^ 53)
               < of_int n + 1"
proof -
  let ?q = "of_int a * of_int t / of_int b :: rat"
  let ?lo = "1 - 1 / 2 ^ 53 :: rat" and ?hi = "1 + 1 / 2 ^ 53 :: rat"
  have t31: "t < 2 ^ 31" using t(2) by simp
  from int_truediv_near[OF t(1) t31 b] obtain r where
    r: "int_truediv t b = Inr (Finite r)" and
    rl: "of_int t / of_int b * ?lo \<le> r" and rh: "r \<le> of_int t / of_int b * ?hi"
    by blast
  have apos: "(0::rat) < of_int a" using a by simp
  have a1: "(1::rat) \<le> of_int a" and b1: "(1::rat) \<le> of_int b" and t1: "(1::rat) \<le> of_int t"
    using a b t by simp_all
  have "(of_int a :: rat) < of_int (2 ^ 31)" "(of_int t :: rat) < of_int (2 ^ 16)"
    using a t by (simp_all only: of_int_less_iff)
  then have a2: "(of_int a :: rat) \<le> 2 ^ 31" and t2: "(of_int t :: rat) \<le> 2 ^ 16" by simp_all
  have arl: "?q * ?lo \<le> of_int a * r"
    using mult_left_mono[OF rl, of "of_int a"] apos by (simp add: algebra_simps)
  have arh: "of_int a * r \<le> ?q * ?hi"
    using mult_left_mono[OF rh, of "of_int a"] apos by (simp add: algebra_simps)
  have qhi: "?q \<le> 2 ^ 47"
  proof -
    have "?q \<le> of_int a * of_int t / 1"
      using a1 b1 t1 by (intro divide_left_mono) auto
    also have "\<dots> = of_int a * of_int t" by simp
    also have "\<dots> \<le> 2 ^ 31 * 2 ^ 16"
      by (rule mult_mono[OF a2 t2]) (use t1 in auto)
    finally show ?thesis by simp
  qed
  have lo1: "3 / 2 * ?lo \<le> of_int a * r"
    using mult_right_mono[OF q, of ?lo] arl by simp
  have hi1: "of_int a * r \<le> 2 ^ 47 * ?hi"
    using mult_right_mono[OF qhi, of ?hi] arh by simp
  have lo2: "2 powi (- 1022) \<le> of_int a * r"
  proof -
    have "(2::rat) powi (- 1022) \<le> 3 / 2 * ?lo" by (simp add: power_int_minus field_simps)
    with lo1 show ?thesis by linarith
  qed
  have hi2: "of_int a * r \<le> 2 ^ 1000"
  proof -
    have "2 ^ 47 * ?hi \<le> (2::rat) ^ 1000" by simp
    with hi1 show ?thesis by linarith
  qed
  from float_round_near[OF lo2 hi2] obtain z where
    z: "float_round (of_int a * r) = Finite z" and
    zl: "of_int a * r * ?lo \<le> z" and zh: "z \<le> of_int a * r * ?hi"
    by blast
  have a53: "\<bar>a\<bar> < 2 ^ 53" using a by simp
  have x: "int_mul_float a (Finite r) = Inr (Finite z)"
    by (simp add: int_mul_float_def float_of_int_exact[OF a53] z)
  have z1: "1 \<le> z"
  proof -
    have "3 / 2 * ?lo * ?lo \<le> of_int a * r * ?lo"
      using mult_right_mono[OF lo1, of ?lo] by simp
    moreover have "(1::rat) \<le> 3 / 2 * ?lo * ?lo" by simp
    ultimately show ?thesis using zl by linarith
  qed
  have z2: "z < 2 ^ 48"
  proof -
    have "of_int a * r * ?hi \<le> 2 ^ 47 * ?hi * ?hi"
      using mult_right_mono[OF hi1, of ?hi] by simp
    moreover have "2 ^ 47 * ?hi * ?hi < (2::rat) ^ 48" by simp
    ultimately show ?thesis using zh by linarith
  qed
  have up: "of_int \<lfloor>z\<rfloor> \<le> ?q + 1"
  proof -
    have "of_int a * r * ?hi \<le> ?q * ?hi * ?hi"
      using mult_right_mono[OF arh, of ?hi] by simp
    moreover have "u * v * v = u + u * (v * v - 1)" for u v :: rat
      by (simp add: algebra_simps)
    then have "?q * ?hi * ?hi = ?q + ?q * (?hi * ?hi - 1)" .
    moreover have "?q * (?hi * ?hi - 1) \<le> 2 ^ 47 * (?hi * ?hi - 1)"
      by (rule mult_right_mono[OF qhi]) simp
    moreover have "2 ^ 47 * (?hi * ?hi - 1) \<le> (1::rat)" by simp
    moreover have "of_int \<lfloor>z\<rfloor> \<le> z" by simp
    ultimately show ?thesis using zh by linarith
  qed
  have lw: "?q * ?lo * ?lo < of_int \<lfloor>z\<rfloor> + 1"
  proof -
    have "?q * ?lo * ?lo \<le> of_int a * r * ?lo"
      using mult_right_mono[OF arl, of ?lo] by simp
    moreover have "z < of_int \<lfloor>z\<rfloor> + 1" by linarith
    ultimately show ?thesis using zl by linarith
  qed
  have n: "int_of_float (Finite z) = Inr \<lfloor>z\<rfloor>" using z1 by simp
  have "1 \<le> \<lfloor>z\<rfloor>" using z1 by (simp add: le_floor_iff)
  moreover have "\<lfloor>z\<rfloor> < 2 ^ 48" using z2 by (simp add: floor_less_iff)
  ultimately show ?thesis using r x n up lw by blast
qed

lemma ratio_scale:
  fixes w h a b :: rat
  assumes "0 < b" and "a / b * c \<le> w / h * d"
  shows "a * c \<le> w * b / h * d"
proof -
  have "a / b * c * b \<le> w / h * d * b"
    using assms by (intro mult_right_mono) auto
  then show ?thesis using assms(1) by (simp add: field_simps)
qed

lemma ratio_side:
  fixes w h a b :: rat
  assumes pos: "0 < w" "0 < h" "0 < a" "0 < b"
    and le: "a / b * (1 - 1 / 2 ^ 53) \<le> w / h * (1 + 1 / 2 ^ 53)"
    and a2: "2 \<le> a"
  shows "3 / 2 \<le> w * b / h"
proof -
  let ?lo = "1 - 1 / 2 ^ 53 :: rat" and ?hi = "1 + 1 / 2 ^ 53 :: rat"
  have "a * ?lo \<le> w * b / h * ?hi"
    using pos(4) le by (rule ratio_scale)
  moreover have "2 * ?lo \<le> a * ?lo" using a2 by (intro mult_right_mono) auto
  ultimately have 1: "2 * ?lo \<le> w * b / h * ?hi" by linarith
  show ?thesis
  proof (rule ccontr)
    assume "\<not> 3 / 2 \<le> w * b / h"
    then have "w * b / h < 3 / 2" by simp
    then have "w * b / h * ?hi < 3 / 2 * ?hi" by (intro mult_strict_right_mono) auto
    moreover have "3 / 2 * ?hi \<le> 2 * ?lo" by simp
    ultimately show False using 1 by linarith
  qed
qed

lemma ratio_flip:
  fixes w h a b c d :: rat
  assumes "0 < w" "0 < h" "0 < a" "0 < b" and "w / h * c \<le> a / b * d"
  shows "b / a * c \<le> h / w * d"
  using assms by (simp add: field_simps)

text \<open>
  The resized side falls at most one pixel short of the target's side \<open>T\<close> on the axis that
  overflows, and is at most one more than the exact quotient.
\<close>

lemma cover_lower:
  fixes q :: rat and T n :: int
  assumes T: "0 < T" "T < 2 ^ 16"
    and s: "of_int T * (1 - 1 / 2 ^ 53) \<le> q * (1 + 1 / 2 ^ 53)"
    and l: "q * (1 - 1 / 2 ^ 53) * (1 - 1 / 2 ^ 53) < of_int n + 1"
  shows "T - 1 \<le> n"
proof -
  let ?lo = "1 - 1 / 2 ^ 53 :: rat" and ?hi = "1 + 1 / 2 ^ 53 :: rat"
  have "(of_int T :: rat) < of_int (2 ^ 16)" using T by (simp only: of_int_less_iff)
  then have T2: "(of_int T :: rat) \<le> 2 ^ 16" by simp
  have "of_int T * (?hi - ?lo * ?lo * ?lo) \<le> 2 ^ 16 * (?hi - ?lo * ?lo * ?lo)"
    by (rule mult_right_mono[OF T2]) simp
  moreover have "2 ^ 16 * (?hi - ?lo * ?lo * ?lo) \<le> ?hi" by simp
  moreover have "u * (v - w * w * w) = u * v - u * w * w * w" for u v w :: rat
    by (simp add: algebra_simps)
  then have "of_int T * (?hi - ?lo * ?lo * ?lo)
             = of_int T * ?hi - of_int T * ?lo * ?lo * ?lo" .
  moreover have "(u - 1) * v = u * v - v" for u v :: rat
    by (simp add: algebra_simps)
  then have "(of_int T - 1) * ?hi = of_int T * ?hi - ?hi" .
  ultimately have 1: "(of_int T - 1) * ?hi \<le> of_int T * ?lo * ?lo * ?lo"
    by linarith
  have "of_int T * ?lo * (?lo * ?lo) \<le> q * ?hi * (?lo * ?lo)"
    by (rule mult_right_mono[OF s]) simp
  then have 2: "of_int T * ?lo * ?lo * ?lo \<le> q * ?lo * ?lo * ?hi"
    by (simp only: mult.assoc mult.left_commute mult.commute)
  have 3: "q * ?lo * ?lo * ?hi < (of_int n + 1) * ?hi"
    by (rule mult_strict_right_mono[OF l]) simp
  from 1 2 3 have "(of_int T - 1) * ?hi < (of_int n + 1) * ?hi" by linarith
  then have "(of_int T - 1 :: rat) < of_int n + 1"
    by (simp only: mult_less_cancel_right) simp
  then have "(of_int (T - 1) :: rat) < of_int (n + 1)" by simp
  then have "T - 1 < n + 1" by (simp only: of_int_less_iff)
  then show ?thesis by simp
qed

lemma cover_upper:
  fixes n a t b :: int
  assumes "0 < b" and "of_int n \<le> (of_int a * of_int t / of_int b + 1 :: rat)"
  shows "n * b \<le> a * t + b"
proof -
  have "of_int n * of_int b \<le> (of_int a * of_int t / of_int b + 1 :: rat) * of_int b"
    using assms by (intro mult_right_mono) auto
  also have "\<dots> = of_int a * of_int t + of_int b"
    using assms(1) by (simp add: field_simps)
  finally have "(of_int (n * b) :: rat) \<le> of_int (a * t + b)" by simp
  then show ?thesis by (simp only: of_int_le_iff)
qed

lemma cover_size_even:
  assumes W: "0 < width im" "width im < 2 ^ 31" and H: "0 < height im" "height im < 2 ^ 31"
    and tw: "0 < tw" "tw < 2 ^ 16" and th: "0 < th" "th < 2 ^ 16"
    and ev: "even tw" "even th"
  shows "\<exists>nw nh. cover_size im (tw, th) = Inr (nw, nh)
           \<and> 1 \<le> nw \<and> nw < 2 ^ 48 \<and> 1 \<le> nh \<and> nh < 2 ^ 48
           \<and> (nw = tw \<and> th - 1 \<le> nh \<and> nh * width im \<le> height im * tw + width im
              \<or> nh = th \<and> tw - 1 \<le> nw \<and> nw * height im \<le> width im * th + height im)"
proof -
  let ?lo = "1 - 1 / 2 ^ 53 :: rat" and ?hi = "1 + 1 / 2 ^ 53 :: rat"
  have tw31: "tw < 2 ^ 31" and th31: "th < 2 ^ 31" using tw th by simp_all
  have tw2: "2 \<le> tw" and th2: "2 \<le> th" using tw th ev by presburger+
  from int_truediv_near[OF W H] obtain r1 where
    r1: "int_truediv (width im) (height im) = Inr (Finite r1)" and
    r1l: "of_int (width im) / of_int (height im) * ?lo \<le> r1" and
    r1h: "r1 \<le> of_int (width im) / of_int (height im) * ?hi" by blast
  from int_truediv_near[OF tw(1) tw31 th(1) th31] obtain r2 where
    r2: "int_truediv tw th = Inr (Finite r2)" and
    r2l: "of_int tw / of_int th * ?lo \<le> r2" and
    r2h: "r2 \<le> of_int tw / of_int th * ?hi" by blast
  have p: "(0::rat) < of_int (width im)" "(0::rat) < of_int (height im)"
    "(0::rat) < of_int tw" "(0::rat) < of_int th"
    using W H tw th by simp_all
  have t2: "(2::rat) \<le> of_int tw" "(2::rat) \<le> of_int th" using tw2 th2 by simp_all
  show ?thesis
  proof (cases "r2 < r1")
    case True
    with r1h r2l have
      le: "of_int tw / of_int th * ?lo \<le> of_int (width im) / of_int (height im) * ?hi"
      by linarith
    from ratio_side[OF p(1,2,3,4) le t2(1)]
    have "3 / 2 \<le> (of_int (width im) * of_int th / of_int (height im) :: rat)" .
    from scaled_side[OF W H th this] obtain r x n where
      n: "int_truediv th (height im) = Inr r" "int_mul_float (width im) r = Inr x"
      "int_of_float x = Inr n" "1 \<le> n" "n < 2 ^ 48" and
      up: "of_int n \<le> (of_int (width im) * of_int th / of_int (height im) + 1 :: rat)" and
      lw: "(of_int (width im) * of_int th / of_int (height im) :: rat) * ?lo * ?lo
           < of_int n + 1" by blast
    have "tw - 1 \<le> n"
      using tw ratio_scale[OF p(4) le] lw by (rule cover_lower)
    moreover have "n * height im \<le> width im * th + height im"
      using H(1) up by (rule cover_upper)
    ultimately show ?thesis
      using True r1 r2 th n by (simp add: cover_size_def)
  next
    case False
    with r1l r2h have
      "of_int (width im) / of_int (height im) * ?lo \<le> of_int tw / of_int th * ?hi"
      by linarith
    from ratio_flip[OF p this] have
      le: "of_int th / of_int tw * ?lo \<le> of_int (height im) / of_int (width im) * ?hi" .
    from ratio_side[OF p(2,1,4,3) le t2(2)]
    have "3 / 2 \<le> (of_int (height im) * of_int tw / of_int (width im) :: rat)" .
    from scaled_side[OF H W tw this] obtain r x n where
      n: "int_truediv tw (width im) = Inr r" "int_mul_float (height im) r = Inr x"
      "int_of_float x = Inr n" "1 \<le> n" "n < 2 ^ 48" and
      up: "of_int n \<le> (of_int (height im) * of_int tw / of_int (width im) + 1 :: rat)" and
      lw: "(of_int (height im) * of_int tw / of_int (width im) :: rat) * ?lo * ?lo
           < of_int n + 1" by blast
    have "th - 1 \<le> n"
      using th ratio_scale[OF p(3) le] lw by (rule cover_lower)
    moreover have "n * width im \<le> height im * tw + width im"
      using W(1) up by (rule cover_upper)
    ultimately show ?thesis
      using False r1 r2 tw n by (simp add: cover_size_def)
  qed
qed

lemma cover_size_same:
  assumes tw: "0 < tw" "tw < 2 ^ 16" and th: "0 < th" "th < 2 ^ 16"
    and im: "width im = tw" "height im = th"
  shows "cover_size im (tw, th) = Inr (tw, th)"
proof -
  have tw31: "tw < 2 ^ 31" and th31: "th < 2 ^ 31" using tw th by simp_all
  from int_truediv_near[OF tw(1) tw31 th(1) th31] obtain r where
    r: "int_truediv tw th = Inr (Finite r)" by blast
  have one: "int_truediv tw tw = Inr (Finite 1)"
    using tw float_round_exact(1)[of 1] by (simp add: int_truediv_def)
  have h53: "\<bar>th\<bar> < 2 ^ 53" using th by simp
  have "int_mul_float th (Finite 1) = Inr (Finite (of_int th))"
    by (simp add: int_mul_float_def float_of_int_exact[OF h53] float_round_exact(1)[OF h53])
  moreover have "int_of_float (Finite (of_int th)) = Inr th" using th by simp
  ultimately show ?thesis
    using r one by (simp add: cover_size_def im)
qed

lemma crop_axis:
  assumes n: "1 \<le> n" "n < 2 ^ 48" and t: "0 < t" "t < 2 ^ 16" and c: "even t \<or> n = t"
  shows "\<exists>l r x0 x1. int_truediv (n - t) 2 = Inr l \<and> float_add_int l t = Inr r
           \<and> \<not> float_gt l r
           \<and> py_round l = Inr x0 \<and> py_round r = Inr x1 \<and> x1 - x0 = t"
proof -
  have d53: "\<bar>n - t\<bar> < 2 ^ 53" and s53: "\<bar>n + t\<bar> < 2 ^ 53" and t53: "\<bar>t\<bar> < 2 ^ 53"
    using n t by simp_all
  have l: "int_truediv (n - t) 2 = Inr (Finite (of_int (n - t) / 2))"
    using float_round_exact(2)[OF d53] by (simp add: int_truediv_def)
  have eq: "(of_int (n - t) / 2 + of_int t :: rat) = of_int (n + t) / 2"
    by (simp add: field_simps)
  have "float_add (Finite (of_int (n - t) / 2)) (Finite (of_int t)) = Finite (of_int (n + t) / 2)"
    unfolding float_add.simps eq by (rule float_round_exact(2)[OF s53])
  then have r: "float_add_int (Finite (of_int (n - t) / 2)) t = Inr (Finite (of_int (n + t) / 2))"
    by (simp only: float_add_int_def float_of_int_exact[OF t53] exn_bind_simps)
  have g: "\<not> float_gt (Finite (of_int (n - t) / 2)) (Finite (of_int (n + t) / 2))"
    using t by simp
  have d: "round_half_even (of_int (n + t) / 2) - round_half_even (of_int (n - t) / 2) = t"
  proof (cases "even t")
    case True
    have "round_half_even (of_int (n + t) / 2)
          = round_half_even (of_int (n - t) / 2) + t"
      unfolding eq[symmetric] by (rule round_half_even_add_even[OF True])
    then show ?thesis by simp
  next
    case False
    with c have nt: "n = t" by simp
    have "(of_int (t + t) / 2 :: rat) = of_int t" "(of_int (t - t) / 2 :: rat) = of_int 0"
      by simp_all
    then show ?thesis unfolding nt by (simp only: round_half_even_of_int)
  qed
  have "py_round (Finite (of_int (n - t) / 2)) = Inr (round_half_even (of_int (n - t) / 2))"
    "py_round (Finite (of_int (n + t) / 2)) = Inr (round_half_even (of_int (n + t) / 2))"
    by (simp_all only: py_round.simps)
  with l r g d show ?thesis by blast
qed

lemma crop_target:
  assumes nw: "1 \<le> nw" "nw < 2 ^ 48" and nh: "1 \<le> nh" "nh < 2 ^ 48"
    and tw: "0 < tw" "tw < 2 ^ 16" and th: "0 < th" "th < 2 ^ 16"
    and cw: "even tw \<or> nw = tw" and ch: "even th \<or> nh = th"
    and px: "tw * th \<le> 2 * max_image_pixels" "tw * th \<le> mem"
  shows "\<exists>box. crop_box (nw, nh) (tw, th) = Inr box
           \<and> crop mem im1 box = Inr \<lparr>width = tw, height = th\<rparr>"
proof -
  from crop_axis[OF nw tw cw] obtain l r x0 x1 where
    x: "int_truediv (nw - tw) 2 = Inr l" "float_add_int l tw = Inr r" "\<not> float_gt l r"
       "py_round l = Inr x0" "py_round r = Inr x1" "x1 - x0 = tw" by blast
  from crop_axis[OF nh th ch] obtain u b y0 y1 where
    y: "int_truediv (nh - th) 2 = Inr u" "float_add_int u th = Inr b" "\<not> float_gt u b"
       "py_round u = Inr y0" "py_round b = Inr y1" "y1 - y0 = th" by blast
  have "crop_box (nw, nh) (tw, th) = Inr (l, u, r, b)"
    using x y by (simp add: crop_box_def)
  moreover have "crop mem im1 (l, u, r, b) = Inr \<lparr>width = tw, height = th\<rparr>"
    using x y tw th px by (simp add: crop_def decompression_bomb_check_def new_image_def)
  ultimately show ?thesis by blast
qed


lemma cover_1920_jpg:
  "cover_size \<lparr>width = 1920, height = 1080\<rparr> (600, 400) = Inr (nw, nh) \<Longrightarrow> nw = 711 \<and> nh = 400"
  by (simp add: cover_1920)


lemma cover_thin: "cover_size \<lparr>width = 1, height = 100000\<rparr> (600, 400) = Inr (600, 60000000)"
  by code_simp

lemma cover_291: "cover_size \<lparr>width = 291, height = 194\<rparr> (600, 400) = Inr (600, 399)"
  by code_simp

lemma cover_4_2: "cover_size \<lparr>width = 4, height = 2\<rparr> (3, 2) = Inr (4, 2)"
  by code_simp

lemma box_4_2: "crop_box (4, 2) (3, 2) = Inr (Finite (1 / 2), Finite 0, Finite (7 / 2), Finite 2)"
  by code_simp

lemma crop_4_2:
  "crop 200000000 \<lparr>width = 4, height = 2\<rparr> (Finite (1 / 2), Finite 0, Finite (7 / 2), Finite 2)
   = Inr \<lparr>width = 4, height = 2\<rparr>"
  by code_simp


end
